theory Spec2Isabelle
  imports Main "HOL-Library.Word" "HOL-Library.AList"
begin

unbundle bit_operations_syntax

section \<open>Shared types\<close>

text \<open>
  Modelled from the spec: \<open>common.h\<close>, which declares \<open>ThreadRegistry\<close>, the
  \<open>folly::ParkingLot\<close> and \<open>MutexLockResult\<close>, is not among the sources.  The spec
  describes thread ids as signed integers and the fair lock word as a packed 64-bit
  struct whose second half is a 32-bit count, so \<open>thread_id_t\<close> is a 32-bit integer.
  \<open>MAX_THREADS\<close> and \<open>INVALID_THREADID\<close> are parameters of the functions that use
  them, and \<open>ThreadRegistry::ThreadID()\<close> is the parameter \<open>me\<close> of every operation
  that a thread performs.
\<close>

type_synonym thread_id_t = "32 word"

text \<open>A mutex is identified by its address; \<open>None\<close> is the null pointer.\<close>

type_synonym mutex_ptr = "nat option"

datatype MutexLockResult = LOCKED | DEADLOCKED

text \<open>
  A failed \<open>assert\<close> ends the process; an operation that contains one returns
  \<open>error + result\<close>, with \<open>Inl AssertionFailed\<close> for the abort.
\<close>

datatype error = AssertionFailed

datatype ParkResult = Skip | Unpark | Timeout

datatype UnparkControl = RetainContinue | RemoveContinue | RetainBreak | RemoveBreak

text \<open>
  Modelled from the spec: \<open>unpark(key, filter)\<close> scans the waiters parked under
  \<open>key\<close> in arrival order and applies the filter's decision to each: \<open>Remove\<close>
  takes the waiter out of the lot (it is woken), \<open>Break\<close> ends the scan.  The filter
  is a closure that may write to what it captured, so it threads a state \<open>'s\<close>.  The
  function works on the queue of one key and returns the waiters that stay parked.
\<close>

fun unpark :: "('d \<Rightarrow> 's \<Rightarrow> UnparkControl \<times> 's) \<Rightarrow> 'd list \<Rightarrow> 's \<Rightarrow> 'd list \<times> 's" where
  "unpark flt [] s = ([], s)"
| "unpark flt (d # ds) s =
     (case flt d s of
        (RetainContinue, s') \<Rightarrow> (let (ds', s'') = unpark flt ds s' in (d # ds', s''))
      | (RemoveContinue, s') \<Rightarrow> unpark flt ds s'
      | (RetainBreak, s') \<Rightarrow> (d # ds, s')
      | (RemoveBreak, s') \<Rightarrow> (ds, s'))"

section \<open>Standard mutex (Mutex.h)\<close>

subsection \<open>Lock word of \<open>DeadlockSafeMutex = MutexImpl<true>\<close>\<close>

text \<open>\<open>WordType\<close> is \<open>thread_id_t\<close> in this instantiation.\<close>

definition M_CONTENDED_MASK :: thread_id_t where
  "M_CONTENDED_MASK = push_bit (4 * 8 - 1) 1"

definition M_UNLOCKED :: thread_id_t where
  "M_UNLOCKED = (- 1) AND NOT M_CONTENDED_MASK"

definition get_unlocked_word :: thread_id_t where
  "get_unlocked_word = M_UNLOCKED"

definition is_locked :: "thread_id_t \<Rightarrow> bool" where
  "is_locked w \<longleftrightarrow> w \<noteq> get_unlocked_word"

definition is_lock_contented :: "thread_id_t \<Rightarrow> bool" where
  "is_lock_contented w \<longleftrightarrow> (w AND M_CONTENDED_MASK) = 0"

definition as_uncontented_word :: "thread_id_t \<Rightarrow> thread_id_t" where
  "as_uncontented_word w = w AND NOT M_CONTENDED_MASK"

definition get_contented_word :: "thread_id_t \<Rightarrow> thread_id_t" where
  "get_contented_word me = me OR M_CONTENDED_MASK"

definition get_lock_word :: "thread_id_t \<Rightarrow> thread_id_t" where
  "get_lock_word me = me"

subsection \<open>Lock word of \<open>Mutex = MutexImpl<false>\<close>\<close>

datatype LockState = LS_UNLOCKED | LS_LOCKED | LS_CONTENTED

definition get_unlocked_word_lean :: LockState where
  "get_unlocked_word_lean = LS_UNLOCKED"

definition is_locked_lean :: "LockState \<Rightarrow> bool" where
  "is_locked_lean w \<longleftrightarrow> w \<noteq> get_unlocked_word_lean"

definition is_lock_contented_lean :: "LockState \<Rightarrow> bool" where
  "is_lock_contented_lean w \<longleftrightarrow> w = LS_CONTENTED"

definition get_contented_word_lean :: LockState where
  "get_contented_word_lean = LS_CONTENTED"

definition get_lock_word_lean :: LockState where
  "get_lock_word_lean = LS_LOCKED"

subsection \<open>Atomic words\<close>

text \<open>
  \<open>std::atomic<T>::compare_exchange_strong(expected, desired)\<close> on an atomic whose
  current value is \<open>cur\<close>: the success flag and the value the atomic holds afterwards.
\<close>

definition compare_exchange_strong :: "'w \<Rightarrow> 'w \<Rightarrow> 'w \<Rightarrow> bool \<times> 'w" where
  "compare_exchange_strong cur expected desired =
     (if cur = expected then (True, desired) else (False, cur))"

subsection \<open>State of the deadlock-safe standard mutexes\<close>

text \<open>
  \<open>words_std\<close> is the member \<open>word\<close> of every mutex object, by address.  The three
  statics of the class follow: the table \<open>thread_waiting_on\<close>, the parking lot (the
  queue of each key; the payload of a waiter is \<open>nullptr\<close>, here \<open>()\<close>) and
  \<open>dead_lock_verify_mutex\<close> (\<open>True\<close> while some thread holds it).
\<close>

record std_state =
  words_std :: "mutex_ptr \<Rightarrow> thread_id_t"
  thread_waiting_on :: "thread_id_t \<Rightarrow> mutex_ptr"
  parkinglot_std :: "mutex_ptr \<Rightarrow> unit list"
  dead_lock_verify_mutex :: bool

text \<open>
  Modelled from the spec: \<open>park_for(key, data, validate, before_sleep, timeout)\<close>
  returns \<open>Skip\<close> without suspending when \<open>validate()\<close> is false; otherwise the
  caller is enqueued under \<open>key\<close> and sleeps.  What happens while it sleeps is not
  decided by the caller: the answer \<open>(timed_out, env)\<close> says whether the sleep ended by
  the timeout or by an unpark, and \<open>env\<close> is the effect on the shared state of the
  steps other threads made meanwhile (the removal of the caller from the queue
  included).
\<close>

type_synonym 's sleep_answer = "bool \<times> ('s \<Rightarrow> 's)"

definition park_for_std ::
  "mutex_ptr \<Rightarrow> (std_state \<Rightarrow> bool) \<Rightarrow> std_state sleep_answer \<Rightarrow> std_state \<Rightarrow> ParkResult \<times> std_state" where
  "park_for_std key validate answer s =
     (if \<not> validate s then (Skip, s)
      else
        let s' = snd answer (s\<lparr>parkinglot_std := (parkinglot_std s)(key := parkinglot_std s key @ [()])\<rparr>)
        in (if fst answer then Timeout else Unpark, s'))"

definition unpark_std ::
  "mutex_ptr \<Rightarrow> (unit \<Rightarrow> std_state \<Rightarrow> UnparkControl \<times> std_state) \<Rightarrow> std_state \<Rightarrow> std_state" where
  "unpark_std key flt s =
     (let (q, s') = unpark flt (parkinglot_std s key) s
      in s'\<lparr>parkinglot_std := (parkinglot_std s')(key := q)\<rparr>)"

subsection \<open>Operations of \<open>DeadlockSafeMutex\<close>\<close>

definition announce_wait_std :: "mutex_ptr \<Rightarrow> thread_id_t \<Rightarrow> std_state \<Rightarrow> std_state" where
  "announce_wait_std this me s = s\<lparr>thread_waiting_on := (thread_waiting_on s)(me := this)\<rparr>"

definition denounce_wait_std :: "thread_id_t \<Rightarrow> std_state \<Rightarrow> std_state" where
  "denounce_wait_std me s = s\<lparr>thread_waiting_on := (thread_waiting_on s)(me := None)\<rparr>"

definition mutex_is_lock_contented :: "mutex_ptr \<Rightarrow> std_state \<Rightarrow> bool" where
  "mutex_is_lock_contented this s = is_lock_contented (words_std s this)"

definition try_lock_std :: "mutex_ptr \<Rightarrow> thread_id_t \<Rightarrow> std_state \<Rightarrow> bool \<times> std_state" where
  "try_lock_std this me s =
     (let old = get_unlocked_word;
          (ok, w) = compare_exchange_strong (words_std s this) old (get_lock_word me)
      in (ok, s\<lparr>words_std := (words_std s)(this := w)\<rparr>))"

definition try_lock_contended :: "mutex_ptr \<Rightarrow> thread_id_t \<Rightarrow> std_state \<Rightarrow> bool \<times> std_state" where
  "try_lock_contended this me s =
     (let old = get_unlocked_word;
          (ok, w) = compare_exchange_strong (words_std s this) old (get_contented_word me)
      in (ok, s\<lparr>words_std := (words_std s)(this := w)\<rparr>))"

text \<open>
  \<open>unlock\<close>: \<open>word.exchange(UNLOCKED)\<close>, then one \<open>unpark\<close> with the filter that
  answers \<open>RemoveBreak\<close> if the old word passes \<open>is_lock_contented\<close>.
\<close>

definition unlock_std :: "mutex_ptr \<Rightarrow> std_state \<Rightarrow> std_state" where
  "unlock_std this s =
     (let old = words_std s this;
          s1 = s\<lparr>words_std := (words_std s)(this := get_unlocked_word)\<rparr>
      in if is_lock_contented old
         then unpark_std this (\<lambda>_ st. (RemoveBreak, st)) s1
         else s1)"

text \<open>
  \<open>uncontended_path_available\<close>.  The loop repeats only when the CAS misses, that is
  when another thread wrote the word between the load and the CAS; the model has no
  step of another thread there, so the repetition is never taken and the function is
  total.
\<close>

function uncontended_path_available :: "mutex_ptr \<Rightarrow> thread_id_t \<Rightarrow> std_state \<Rightarrow> bool \<times> std_state" where
  "uncontended_path_available this me s =
     (let old = words_std s this in
      if \<not> is_locked old then (True, s)
      else if is_lock_contented old then (False, s)
      else if fst (compare_exchange_strong (words_std s this) old (get_contented_word me))
        then (False, s\<lparr>words_std := (words_std s)(this :=
                snd (compare_exchange_strong (words_std s this) old (get_contented_word me)))\<rparr>)
        else uncontended_path_available this me s)"
  by pat_completeness auto
termination
  by (relation "{}") (auto simp: compare_exchange_strong_def)

subsection \<open>The inline deadlock check of \<open>DeadlockSafeMutex\<close>\<close>

text \<open>
  The local \<open>std::unordered_map waiters\<close> is an association list: \<open>waiters[k] = v\<close>
  is \<open>AList.update\<close>, \<open>waiters.count(k) != 0\<close> is membership among the keys, and the
  range-for visits the entries in list order.
\<close>

type_synonym waiters_std = "(thread_id_t \<times> mutex_ptr) list"

function detect_deadlock_loop :: "std_state \<Rightarrow> mutex_ptr \<Rightarrow> waiters_std \<Rightarrow> bool \<times> waiters_std" where
  "detect_deadlock_loop s waiting_on waiters =
     (let lock_holder = as_uncontented_word (words_std s waiting_on) in
      if \<not> is_locked lock_holder then (False, waiters)
      else if thread_waiting_on s lock_holder = None then (False, waiters)
      else if lock_holder \<in> fst ` set waiters then (True, waiters)
      else detect_deadlock_loop s (thread_waiting_on s lock_holder)
             (AList.update lock_holder (thread_waiting_on s lock_holder) waiters))"
  by pat_completeness auto
termination
proof (relation "measure (\<lambda>(s, waiting_on, waiters). card (- (fst ` set waiters)))")
  show "wf (measure (\<lambda>(s, waiting_on, waiters). card (- (fst ` set waiters))))"
    by simp
next
  fix s :: std_state and waiting_on :: mutex_ptr and waiters :: waiters_std
    and lock_holder :: thread_id_t
  assume "lock_holder \<notin> fst ` set waiters"
  then have "- (fst ` set (AList.update lock_holder (thread_waiting_on s lock_holder) waiters))
      \<subset> - (fst ` set waiters)"
    by (auto simp: dom_update)
  then have "card (- (fst ` set (AList.update lock_holder (thread_waiting_on s lock_holder) waiters)))
      < card (- (fst ` set waiters))"
    by (intro psubset_card_mono) simp_all
  then show "((s, thread_waiting_on s lock_holder,
        AList.update lock_holder (thread_waiting_on s lock_holder) waiters),
      (s, waiting_on, waiters))
      \<in> measure (\<lambda>(s, waiting_on, waiters). card (- (fst ` set waiters)))"
    by simp
qed

definition detect_deadlock :: "mutex_ptr \<Rightarrow> thread_id_t \<Rightarrow> std_state \<Rightarrow> bool \<times> waiters_std" where
  "detect_deadlock this me s = detect_deadlock_loop s this (AList.update me this [])"

text \<open>The range-for of \<open>verify_deadlock\<close>: \<open>False\<close> at the first pair that changed.\<close>

fun verify_pairs :: "(thread_id_t \<Rightarrow> mutex_ptr) \<Rightarrow> waiters_std \<Rightarrow> bool" where
  "verify_pairs tbl [] = True"
| "verify_pairs tbl (waiter # rest) =
     (if snd waiter \<noteq> tbl (fst waiter) then False else verify_pairs tbl rest)"

text \<open>
  \<open>verify_deadlock\<close>.  The \<open>lock_guard\<close> blocks while another thread holds
  \<open>dead_lock_verify_mutex\<close> (the result \<open>None\<close>: the call does not return in this
  state); otherwise the mutex is held from the first line to the return.
  \<open>verify_deadlock_locked\<close> is the body, run with the mutex held.
\<close>

definition verify_deadlock_locked :: "thread_id_t \<Rightarrow> waiters_std \<Rightarrow> std_state \<Rightarrow> bool \<times> std_state" where
  "verify_deadlock_locked me waiters s =
     (if verify_pairs (thread_waiting_on s) waiters then (True, denounce_wait_std me s)
      else (False, s))"

definition verify_deadlock :: "thread_id_t \<Rightarrow> waiters_std \<Rightarrow> std_state \<Rightarrow> (bool \<times> std_state) option" where
  "verify_deadlock me waiters s =
     (if dead_lock_verify_mutex s then None
      else
        let (r, s') = verify_deadlock_locked me waiters (s\<lparr>dead_lock_verify_mutex := True\<rparr>)
        in Some (r, s'\<lparr>dead_lock_verify_mutex := False\<rparr>))"

text \<open>
  \<open>check_deadlock\<close> is \<open>detect_deadlock() && verify_deadlock()\<close>.  Other threads run
  between the search and the moment the verification holds the global mutex; \<open>env\<close>
  is their effect on the shared state.
\<close>

definition check_deadlock ::
  "mutex_ptr \<Rightarrow> thread_id_t \<Rightarrow> (std_state \<Rightarrow> std_state) \<Rightarrow> std_state \<Rightarrow> (bool \<times> std_state) option" where
  "check_deadlock this me env s =
     (let (found, waiters) = detect_deadlock this me s
      in if found then verify_deadlock me waiters (env s) else Some (False, s))"

subsection \<open>Parking and locking of \<open>DeadlockSafeMutex\<close>\<close>

text \<open>
  One call of \<open>park\<close> consumes one answer of the environment: how the sleep in
  \<open>park_for\<close> ended, and what other threads did before the verification of
  \<open>check_deadlock\<close> held the global mutex.
\<close>

type_synonym park_answer_std = "std_state sleep_answer \<times> (std_state \<Rightarrow> std_state)"

definition park_std ::
  "mutex_ptr \<Rightarrow> thread_id_t \<Rightarrow> park_answer_std \<Rightarrow> std_state \<Rightarrow> (bool \<times> std_state) option" where
  "park_std this me answer s =
     (let s1 = announce_wait_std this me s;
          (res, s2) = park_for_std this (mutex_is_lock_contented this) (fst answer) s1
      in if res = Timeout
         then (case check_deadlock this me (snd answer) s2 of
                 None \<Rightarrow> None
               | Some (r, s3) \<Rightarrow> if r then Some (True, s3) else Some (False, denounce_wait_std me s3))
         else Some (False, denounce_wait_std me s2))"

text \<open>
  \<open>lock_contended\<close>: \<open>while (!try_lock_contended()) if (park()) return DEADLOCKED\<close>.
  The loop has no bound of its own.  It runs on the list of the environment's answers,
  one for each call of \<open>park\<close>; \<open>None\<close> says that the caller is still inside the loop
  when the answers are used up (or blocked on the global mutex).
\<close>

fun lock_contended ::
  "mutex_ptr \<Rightarrow> thread_id_t \<Rightarrow> park_answer_std list \<Rightarrow> std_state \<Rightarrow> (MutexLockResult \<times> std_state) option" where
  "lock_contended this me [] s =
     (let (ok, s1) = try_lock_contended this me s in if ok then Some (LOCKED, s1) else None)"
| "lock_contended this me (a # as) s =
     (let (ok, s1) = try_lock_contended this me s in
      if ok then Some (LOCKED, s1)
      else (case park_std this me a s1 of
              None \<Rightarrow> None
            | Some (deadlocked, s2) \<Rightarrow>
                if deadlocked then Some (DEADLOCKED, s2) else lock_contended this me as s2))"

text \<open>
  \<open>lock\<close>: \<open>while (!try_lock()) if (!uncontended_path_available()) return lock_contended()\<close>.
  The loop repeats only when the word was released between the failed \<open>try_lock\<close>
  and the load of \<open>uncontended_path_available\<close>; no other thread steps there in the
  model, so the repetition is never taken.  \<open>assert(is_locked())\<close> follows the loop.
\<close>

definition mutex_is_locked :: "mutex_ptr \<Rightarrow> std_state \<Rightarrow> bool" where
  "mutex_is_locked this s = is_locked (words_std s this)"

function lock_std ::
  "mutex_ptr \<Rightarrow> thread_id_t \<Rightarrow> park_answer_std list \<Rightarrow> std_state
     \<Rightarrow> (error + MutexLockResult \<times> std_state) option" where
  "lock_std this me answers s =
     (if fst (try_lock_std this me s)
      then (if mutex_is_locked this (snd (try_lock_std this me s))
            then Some (Inr (LOCKED, snd (try_lock_std this me s)))
            else Some (Inl AssertionFailed))
      else if \<not> fst (uncontended_path_available this me (snd (try_lock_std this me s)))
        then map_option Inr (lock_contended this me answers
               (snd (uncontended_path_available this me (snd (try_lock_std this me s)))))
        else lock_std this me answers
               (snd (uncontended_path_available this me (snd (try_lock_std this me s)))))"
  by pat_completeness auto
termination
proof (relation "{}")
  show "wf {}" by simp
next
  fix this :: mutex_ptr and me :: thread_id_t and answers :: "park_answer_std list"
    and s :: std_state
  assume miss: "\<not> fst (try_lock_std this me s)"
    and free: "\<not> \<not> fst (uncontended_path_available this me (snd (try_lock_std this me s)))"
  from miss have held: "words_std s this \<noteq> get_unlocked_word"
    by (auto simp: try_lock_std_def compare_exchange_strong_def split: if_splits)
  then have "words_std (snd (try_lock_std this me s)) this \<noteq> get_unlocked_word"
    by (simp add: try_lock_std_def compare_exchange_strong_def)
  then have "\<not> fst (uncontended_path_available this me (snd (try_lock_std this me s)))"
    by (subst uncontended_path_available.simps)
       (simp add: Let_def is_locked_def compare_exchange_strong_def)
  with free show "((this, me, answers,
        snd (uncontended_path_available this me (snd (try_lock_std this me s)))),
      (this, me, answers, s)) \<in> {}"
    by simp
qed

subsection \<open>\<open>unlock\<close> of the lean \<open>Mutex\<close>\<close>

record lean_state =
  words_lean :: "mutex_ptr \<Rightarrow> LockState"
  parkinglot_lean :: "mutex_ptr \<Rightarrow> unit list"

definition unlock_lean :: "mutex_ptr \<Rightarrow> lean_state \<Rightarrow> lean_state" where
  "unlock_lean this s =
     (let old = words_lean s this;
          s1 = s\<lparr>words_lean := (words_lean s)(this := get_unlocked_word_lean)\<rparr>
      in if is_lock_contented_lean old
         then s1\<lparr>parkinglot_lean := (parkinglot_lean s1)
                  (this := fst (unpark (\<lambda>_ st. (RemoveBreak, st)) (parkinglot_lean s1 this) ()))\<rparr>
         else s1)"

section \<open>Fair mutex (FairMutex.h)\<close>

subsection \<open>Data\<close>

record LockWord =
  holder :: thread_id_t
  num_waiters :: "32 word"

text \<open>
  \<open>WaitNodeData::is_dead_locked\<close> points to the local \<open>bool is_dead_locked\<close> of the
  \<open>park\<close> call that built the node.  A thread is inside at most one such call, so the
  local is named by its thread id, and the locals of all threads are the store
  \<open>is_dead_locked_local\<close> of the state below.
\<close>

record WaitNodeData =
  tid :: thread_id_t
  wait_token :: "64 word"
  is_dead_locked :: thread_id_t

text \<open>\<open>TimePoint\<close> is a count of clock ticks since the clock's epoch.\<close>

type_synonym TimePoint = int

record ThreadWaitInfo =
  waiting_on :: mutex_ptr
  wait_start_time :: TimePoint
  current_wait_token :: "64 word"

record fair_state =
  words :: "mutex_ptr \<Rightarrow> LockWord"
  parkinglot :: "mutex_ptr \<Rightarrow> WaitNodeData list"
  global_wait_info :: "thread_id_t \<Rightarrow> ThreadWaitInfo"
  is_dead_locked_local :: "thread_id_t \<Rightarrow> bool"

subsection \<open>\<open>ThreadWaitInfo\<close>\<close>

text \<open>
  The template parameter \<open>EnableDeadlockDetection\<close> is the first argument;
  \<open>now\<close> is the value of \<open>Clock::now()\<close>.
\<close>

definition announce_wait ::
  "bool \<Rightarrow> mutex_ptr \<Rightarrow> TimePoint \<Rightarrow> ThreadWaitInfo \<Rightarrow> 64 word \<times> ThreadWaitInfo" where
  "announce_wait EnableDeadlockDetection lck now info =
     (if EnableDeadlockDetection
      then
        let info1 = info\<lparr>wait_start_time := now\<rparr>;
            info2 = info1\<lparr>waiting_on := lck\<rparr>;
            info3 = info2\<lparr>current_wait_token := current_wait_token info2 + 1\<rparr>
        in (current_wait_token info3, info3)
      else (0, info))"

definition denounce_wait :: "bool \<Rightarrow> ThreadWaitInfo \<Rightarrow> ThreadWaitInfo" where
  "denounce_wait EnableDeadlockDetection info =
     (if EnableDeadlockDetection then info\<lparr>waiting_on := None\<rparr> else info)"

subsection \<open>The packed lock word\<close>

text \<open>\<open>INVALID_HOLDER\<close> is \<open>ThreadRegistry::MAX_THREADS\<close>, the parameter \<open>MAX_THREADS\<close>.\<close>

definition LockWord_get_unlocked_word :: "thread_id_t \<Rightarrow> LockWord" where
  "LockWord_get_unlocked_word MAX_THREADS = \<lparr>holder = MAX_THREADS, num_waiters = 0\<rparr>"

definition LockWord_get_lock_word :: "thread_id_t \<Rightarrow> LockWord" where
  "LockWord_get_lock_word me = \<lparr>holder = me, num_waiters = 0\<rparr>"

definition LockWord_is_locked :: "thread_id_t \<Rightarrow> LockWord \<Rightarrow> bool" where
  "LockWord_is_locked MAX_THREADS w \<longleftrightarrow> holder w \<noteq> MAX_THREADS"

definition LockWord_is_locked_by_me :: "thread_id_t \<Rightarrow> LockWord \<Rightarrow> bool" where
  "LockWord_is_locked_by_me me w \<longleftrightarrow> holder w = me"

definition has_waiters :: "LockWord \<Rightarrow> bool" where
  "has_waiters w \<longleftrightarrow> num_waiters w \<noteq> 0"

definition LockWord_transfer_lock :: "thread_id_t \<Rightarrow> LockWord \<Rightarrow> LockWord" where
  "LockWord_transfer_lock t w = \<lparr>holder = t, num_waiters = num_waiters w - 1\<rparr>"

definition LockWord_increment_num_waiters :: "LockWord \<Rightarrow> LockWord" where
  "LockWord_increment_num_waiters w = \<lparr>holder = holder w, num_waiters = num_waiters w + 1\<rparr>"

definition LockWord_decrement_num_waiters :: "LockWord \<Rightarrow> LockWord" where
  "LockWord_decrement_num_waiters w = \<lparr>holder = holder w, num_waiters = num_waiters w - 1\<rparr>"

subsection \<open>The retry loops on the atomic word\<close>

text \<open>
  Each of the three loops loads the word, computes the new word and tries the CAS,
  repeating when the CAS misses.  A miss needs a write of another thread between the
  load and the CAS; the model has no such step, so each loop ends in its first round
  and the three functions are total.
\<close>

function increment_num_waiters :: "thread_id_t \<Rightarrow> mutex_ptr \<Rightarrow> fair_state \<Rightarrow> bool \<times> fair_state" where
  "increment_num_waiters MAX_THREADS this s =
     (let old = words s this in
      if \<not> LockWord_is_locked MAX_THREADS old then (False, s)
      else if fst (compare_exchange_strong (words s this) old (LockWord_increment_num_waiters old))
        then (True, s\<lparr>words := (words s)(this :=
                snd (compare_exchange_strong (words s this) old (LockWord_increment_num_waiters old)))\<rparr>)
        else increment_num_waiters MAX_THREADS this s)"
  by pat_completeness auto
termination
  by (relation "{}") (auto simp: compare_exchange_strong_def)

function decrement_num_waiters :: "mutex_ptr \<Rightarrow> fair_state \<Rightarrow> bool \<times> fair_state" where
  "decrement_num_waiters this s =
     (let old = words s this in
      if fst (compare_exchange_strong (words s this) old (LockWord_decrement_num_waiters old))
        then (True, s\<lparr>words := (words s)(this :=
                snd (compare_exchange_strong (words s this) old (LockWord_decrement_num_waiters old)))\<rparr>)
        else decrement_num_waiters this s)"
  by pat_completeness auto
termination
  by (relation "{}") (auto simp: compare_exchange_strong_def)

function transfer_lock :: "mutex_ptr \<Rightarrow> thread_id_t \<Rightarrow> fair_state \<Rightarrow> fair_state" where
  "transfer_lock this t s =
     (let old = words s this in
      if fst (compare_exchange_strong (words s this) old (LockWord_transfer_lock t old))
        then s\<lparr>words := (words s)(this :=
                snd (compare_exchange_strong (words s this) old (LockWord_transfer_lock t old)))\<rparr>
        else transfer_lock this t s)"
  by pat_completeness auto
termination
  by (relation "{}") (auto simp: compare_exchange_strong_def)

definition is_locked_by_me :: "mutex_ptr \<Rightarrow> thread_id_t \<Rightarrow> fair_state \<Rightarrow> bool" where
  "is_locked_by_me this me s = LockWord_is_locked_by_me me (words s this)"

definition is_locked_fair :: "thread_id_t \<Rightarrow> mutex_ptr \<Rightarrow> fair_state \<Rightarrow> bool" where
  "is_locked_fair MAX_THREADS this s = LockWord_is_locked MAX_THREADS (words s this)"

definition try_lock_fair :: "thread_id_t \<Rightarrow> mutex_ptr \<Rightarrow> thread_id_t \<Rightarrow> fair_state \<Rightarrow> bool \<times> fair_state" where
  "try_lock_fair MAX_THREADS this me s =
     (let old = LockWord_get_unlocked_word MAX_THREADS;
          (ok, w) = compare_exchange_strong (words s this) old (LockWord_get_lock_word me)
      in (ok, s\<lparr>words := (words s)(this := w)\<rparr>))"

subsection \<open>The parking lot of the fair mutex\<close>

text \<open>
  Modelled from the spec: \<open>park(key, data, validate, before_sleep)\<close> returns
  \<open>Skip\<close> without suspending when \<open>validate()\<close> is false; otherwise the caller is
  enqueued under \<open>key\<close> with its payload and sleeps until an \<open>unpark\<close> removes it.
  \<open>env\<close> is the effect on the shared state of the steps other threads made while the
  caller slept (its removal from the queue included).
\<close>

definition park_lot ::
  "mutex_ptr \<Rightarrow> WaitNodeData \<Rightarrow> (fair_state \<Rightarrow> bool) \<Rightarrow> (fair_state \<Rightarrow> fair_state) \<Rightarrow> fair_state
     \<Rightarrow> ParkResult \<times> fair_state" where
  "park_lot key waitdata validate env s =
     (if \<not> validate s then (Skip, s)
      else (Unpark, env (s\<lparr>parkinglot := (parkinglot s)(key := parkinglot s key @ [waitdata])\<rparr>)))"

text \<open>
  \<open>unpark\<close> on the queue of \<open>key\<close>.  The filter sees the shared state and the locals
  \<open>'l\<close> that the closure captured by reference.
\<close>

definition unpark_fair ::
  "mutex_ptr \<Rightarrow> (WaitNodeData \<Rightarrow> 'l \<times> fair_state \<Rightarrow> UnparkControl \<times> 'l \<times> fair_state)
     \<Rightarrow> 'l \<times> fair_state \<Rightarrow> 'l \<times> fair_state" where
  "unpark_fair key flt ls =
     (let (q, (l', s')) = unpark flt (parkinglot (snd ls) key) ls
      in (l', s'\<lparr>parkinglot := (parkinglot s')(key := q)\<rparr>))"

subsection \<open>\<open>park\<close>, \<open>lock\<close> and \<open>unlock\<close> of the fair mutex\<close>

datatype ParkRes = PARKRES_RETRY | PARKRES_LOCKED | PARKRES_DEADLOCKED

text \<open>The \<open>validate\<close> closure that \<open>park\<close> hands to the parking lot.\<close>

definition park_validate :: "mutex_ptr \<Rightarrow> thread_id_t \<Rightarrow> fair_state \<Rightarrow> bool" where
  "park_validate this me s \<longleftrightarrow> \<not> is_locked_by_me this me s \<and> \<not> is_dead_locked_local s me"

text \<open>
  The lambda \<open>park\<close> inside \<open>FairMutexImpl::park\<close>, in two parts.
  \<open>park_lambda_return\<close> is its code after \<open>parkinglot.park\<close> has returned \<open>res\<close>:
  \<open>denounce_wait\<close>, the decrement of a deadlocked waiter, and the returned pair.
  \<open>park_lambda\<close> is the whole lambda; the answer of the environment is
  \<open>(now, env)\<close>: the value of \<open>Clock::now()\<close> and what other threads did while the
  caller slept.
\<close>

type_synonym park_answer = "TimePoint \<times> (fair_state \<Rightarrow> fair_state)"

definition park_lambda_return ::
  "bool \<Rightarrow> mutex_ptr \<Rightarrow> thread_id_t \<Rightarrow> ParkResult \<Rightarrow> fair_state \<Rightarrow> (ParkResult \<times> bool) \<times> fair_state" where
  "park_lambda_return EnableDeadlockDetection this me res s =
     (let s1 = s\<lparr>global_wait_info := (global_wait_info s)
                  (me := denounce_wait EnableDeadlockDetection (global_wait_info s me))\<rparr>;
          s2 = (if is_dead_locked_local s1 me then snd (decrement_num_waiters this s1) else s1)
      in ((res, is_dead_locked_local s2 me), s2))"

definition park_lambda ::
  "bool \<Rightarrow> mutex_ptr \<Rightarrow> thread_id_t \<Rightarrow> park_answer \<Rightarrow> fair_state \<Rightarrow> (ParkResult \<times> bool) \<times> fair_state" where
  "park_lambda EnableDeadlockDetection this me answer s =
     (let s1 = s\<lparr>is_dead_locked_local := (is_dead_locked_local s)(me := False)\<rparr>;
          (token, info) = announce_wait EnableDeadlockDetection this (fst answer) (global_wait_info s1 me);
          s2 = s1\<lparr>global_wait_info := (global_wait_info s1)(me := info)\<rparr>;
          waitdata = \<lparr>tid = me, wait_token = token, is_dead_locked = me\<rparr>;
          (res, s3) = park_lot this waitdata (park_validate this me) (snd answer) s2
      in park_lambda_return EnableDeadlockDetection this me res s3)"

text \<open>
  The \<open>switch\<close> of \<open>park\<close> on the pair that the lambda returned.  The \<open>default\<close>
  branch asserts a string literal, which never fails, and falls out of the \<open>switch\<close>
  to \<open>return PARKRES_RETRY\<close>.
\<close>

definition park_switch :: "mutex_ptr \<Rightarrow> ParkResult \<times> bool \<Rightarrow> fair_state \<Rightarrow> ParkRes \<times> fair_state" where
  "park_switch this res s =
     (case fst res of
        Skip \<Rightarrow> (PARKRES_LOCKED, snd (decrement_num_waiters this s))
      | Unpark \<Rightarrow> (if snd res then PARKRES_DEADLOCKED else PARKRES_LOCKED, s)
      | Timeout \<Rightarrow> (PARKRES_RETRY, s))"

definition park_fair ::
  "bool \<Rightarrow> thread_id_t \<Rightarrow> mutex_ptr \<Rightarrow> thread_id_t \<Rightarrow> park_answer \<Rightarrow> fair_state \<Rightarrow> ParkRes \<times> fair_state" where
  "park_fair EnableDeadlockDetection MAX_THREADS this me answer s =
     (let (registered, s0) = increment_num_waiters MAX_THREADS this s in
      if registered then
        (let (res, s1) = park_lambda EnableDeadlockDetection this me answer s0
         in park_switch this res s1)
      else (PARKRES_RETRY, s0))"

text \<open>
  What \<open>park\<close> does from the moment \<open>parkinglot.park\<close> has returned \<open>res\<close>: the rest
  of the lambda, then the \<open>switch\<close>.
\<close>

definition park_resume ::
  "bool \<Rightarrow> mutex_ptr \<Rightarrow> thread_id_t \<Rightarrow> ParkResult \<Rightarrow> fair_state \<Rightarrow> ParkRes \<times> fair_state" where
  "park_resume EnableDeadlockDetection this me res s =
     (let (r, s1) = park_lambda_return EnableDeadlockDetection this me res s
      in park_switch this r s1)"

text \<open>
  \<open>lock\<close>.  The loop has no bound of its own; it runs on the list of the
  environment's answers, one for each round that reaches \<open>park\<close>, and \<open>None\<close> says
  that the caller is still inside the loop when the answers are used up.  Each
  \<open>assert\<close> of the source is a branch.
\<close>

fun lock_fair ::
  "bool \<Rightarrow> thread_id_t \<Rightarrow> mutex_ptr \<Rightarrow> thread_id_t \<Rightarrow> park_answer list \<Rightarrow> fair_state
     \<Rightarrow> (error + MutexLockResult \<times> fair_state) option" where
  "lock_fair EnableDeadlockDetection MAX_THREADS this me [] s =
     (let (ok, s1) = try_lock_fair MAX_THREADS this me s in
      if ok then (if is_locked_by_me this me s1 then Some (Inr (LOCKED, s1)) else Some (Inl AssertionFailed))
      else None)"
| "lock_fair EnableDeadlockDetection MAX_THREADS this me (a # as) s =
     (let (ok, s1) = try_lock_fair MAX_THREADS this me s in
      if ok then (if is_locked_by_me this me s1 then Some (Inr (LOCKED, s1)) else Some (Inl AssertionFailed))
      else
        (case park_fair EnableDeadlockDetection MAX_THREADS this me a s1 of
           (PARKRES_RETRY, s2) \<Rightarrow>
             if \<not> is_locked_by_me this me s2
             then lock_fair EnableDeadlockDetection MAX_THREADS this me as s2
             else Some (Inl AssertionFailed)
         | (PARKRES_LOCKED, s2) \<Rightarrow>
             if is_locked_by_me this me s2 then Some (Inr (LOCKED, s2)) else Some (Inl AssertionFailed)
         | (PARKRES_DEADLOCKED, s2) \<Rightarrow>
             if \<not> is_locked_by_me this me s2 then Some (Inr (DEADLOCKED, s2))
             else Some (Inl AssertionFailed)))"

text \<open>
  The filter of \<open>unlock\<close>; its captured locals are \<open>wokeup_somebody\<close> and, for the
  \<open>assert\<close>, a flag that the assertion failed (the scan stops there).
\<close>

definition unlock_filter ::
  "mutex_ptr \<Rightarrow> WaitNodeData \<Rightarrow> (bool \<times> bool) \<times> fair_state \<Rightarrow> UnparkControl \<times> (bool \<times> bool) \<times> fair_state" where
  "unlock_filter this waitdata ls =
     (let ((wokeup_somebody, failed), s) = ls in
      if is_dead_locked_local s (is_dead_locked waitdata)
      then (RetainBreak, (wokeup_somebody, True), s)
      else (RemoveBreak, (True, failed), transfer_lock this (tid waitdata) s))"

text \<open>
  \<open>unlock\<close>.  With waiters counted but none parked yet the loop spins until another
  thread parks; alone it never returns, which is the value \<open>None\<close>.
\<close>

partial_function (option) unlock_fair :: "thread_id_t \<Rightarrow> mutex_ptr \<Rightarrow> fair_state \<Rightarrow> (error + fair_state) option" where
  "unlock_fair MAX_THREADS this s =
     (let old = words s this in
      if has_waiters old then
        (let r = unpark_fair this (unlock_filter this) ((False, False), s) in
         if snd (fst r) then Some (Inl AssertionFailed)
         else if fst (fst r) then Some (Inr (snd r))
         else unlock_fair MAX_THREADS this (snd r))
      else if fst (compare_exchange_strong (words s this) old (LockWord_get_unlocked_word MAX_THREADS))
        then Some (Inr (s\<lparr>words := (words s)(this :=
               snd (compare_exchange_strong (words s this) old (LockWord_get_unlocked_word MAX_THREADS)))\<rparr>))
        else unlock_fair MAX_THREADS this s)"

subsection \<open>\<open>DeadlockDetector\<close> of the fair mutex\<close>

record WaiterInfo =
  wi_lock :: mutex_ptr
  wi_wait_token :: "64 word"

text \<open>
  The two \<open>std::unordered_map\<close> members and the cycle map are association lists; the
  range-for visits the entries in list order, which for the hash map is an order the
  code does not control.  \<open>m[k]\<close> read on a missing key inserts and returns the
  value-initialised entry: \<open>index_default\<close>.
\<close>

record DeadlockDetector =
  waiters :: "(thread_id_t \<times> WaiterInfo) list"
  holders :: "(mutex_ptr \<times> thread_id_t) list"

type_synonym lockcycle = "(thread_id_t \<times> mutex_ptr) list"

definition index_default :: "'k \<Rightarrow> 'v \<Rightarrow> ('k \<times> 'v) list \<Rightarrow> 'v \<times> ('k \<times> 'v) list" where
  "index_default k dflt m =
     (case map_of m k of Some v \<Rightarrow> (v, m) | None \<Rightarrow> (dflt, m @ [(k, dflt)]))"

definition default_WaiterInfo :: WaiterInfo where
  "default_WaiterInfo = \<lparr>wi_lock = None, wi_wait_token = 0\<rparr>"

text \<open>
  The filter of \<open>gather_waiters_and_holders_info\<close> for the slot \<open>waiter_id\<close>, whose
  announced lock is \<open>lck\<close>.  Its captured locals are the detector's maps and the flag
  of a failed assertion.
\<close>

definition gather_filter ::
  "thread_id_t \<Rightarrow> mutex_ptr \<Rightarrow> thread_id_t \<Rightarrow> 64 word \<Rightarrow> WaitNodeData
     \<Rightarrow> (DeadlockDetector \<times> bool) \<times> fair_state \<Rightarrow> UnparkControl \<times> (DeadlockDetector \<times> bool) \<times> fair_state" where
  "gather_filter MAX_THREADS lck waiter_id token waitdata ls =
     (let ((dd, failed), s) = ls in
      if is_dead_locked_local s (is_dead_locked waitdata) then (RetainBreak, (dd, True), s)
      else if tid waitdata = waiter_id then
        let lock_word = words s lck;
            dd' = (if LockWord_is_locked MAX_THREADS lock_word
                   then dd\<lparr>waiters := AList.update waiter_id \<lparr>wi_lock = lck, wi_wait_token = token\<rparr> (waiters dd),
                          holders := AList.update lck (holder lock_word) (holders dd)\<rparr>
                   else dd)
        in (RetainBreak, (dd', failed), s)
      else (RetainContinue, (dd, failed), s))"

fun gather_slots ::
  "thread_id_t \<Rightarrow> thread_id_t list \<Rightarrow> DeadlockDetector \<times> fair_state \<Rightarrow> error + DeadlockDetector \<times> fair_state" where
  "gather_slots MAX_THREADS [] ds = Inr ds"
| "gather_slots MAX_THREADS (waiter_id # rest) ds =
     (let (dd, s) = ds;
          lck = waiting_on (global_wait_info s waiter_id);
          token = current_wait_token (global_wait_info s waiter_id)
      in if lck \<noteq> None then
           (let r = unpark_fair lck (gather_filter MAX_THREADS lck waiter_id token) ((dd, False), s)
            in if snd (fst r) then Inl AssertionFailed
               else gather_slots MAX_THREADS rest (fst (fst r), snd r))
         else gather_slots MAX_THREADS rest (dd, s))"

text \<open>The array \<open>global_wait_info\<close> has the slots \<open>0 .. MAX_THREADS - 1\<close>.\<close>

definition gather_waiters_and_holders_info ::
  "thread_id_t \<Rightarrow> fair_state \<Rightarrow> error + DeadlockDetector \<times> fair_state" where
  "gather_waiters_and_holders_info MAX_THREADS s =
     gather_slots MAX_THREADS (map of_nat [0..<unat MAX_THREADS]) (\<lparr>waiters = [], holders = []\<rparr>, s)"

function detect_lock_cycle_loop ::
  "DeadlockDetector \<Rightarrow> mutex_ptr \<Rightarrow> lockcycle \<Rightarrow> lockcycle \<times> DeadlockDetector" where
  "detect_lock_cycle_loop dd lck cyc =
     (let waiterid = fst (index_default lck 0 (holders dd));
          dd1 = dd\<lparr>holders := snd (index_default lck 0 (holders dd))\<rparr>
      in if waiterid \<notin> fst ` set (waiters dd1) then ([], dd1)
         else
           let lck' = wi_lock (fst (index_default waiterid default_WaiterInfo (waiters dd1)));
               dd2 = dd1\<lparr>waiters := snd (index_default waiterid default_WaiterInfo (waiters dd1))\<rparr>
           in if waiterid \<in> fst ` set cyc then (cyc, dd2)
              else detect_lock_cycle_loop dd2 lck' (AList.update waiterid lck' cyc))"
  by pat_completeness auto
termination
proof (relation "measure (\<lambda>(dd, lck, cyc). card (fst ` set (waiters dd) - fst ` set cyc))")
  show "wf (measure (\<lambda>(dd, lck, cyc). card (fst ` set (waiters dd) - fst ` set cyc)))"
    by simp
next
  fix dd :: DeadlockDetector and lck :: mutex_ptr and cyc :: lockcycle
    and waiterid :: thread_id_t and dd1 dd2 :: DeadlockDetector and lck' :: mutex_ptr
  assume w: "waiterid = fst (index_default lck 0 (holders dd))"
    and d1: "dd1 = dd\<lparr>holders := snd (index_default lck 0 (holders dd))\<rparr>"
    and known: "\<not> waiterid \<notin> fst ` set (waiters dd1)"
    and d2: "dd2 = dd1\<lparr>waiters := snd (index_default waiterid default_WaiterInfo (waiters dd1))\<rparr>"
    and fresh: "waiterid \<notin> fst ` set cyc"
  from known d1 have mem: "waiterid \<in> fst ` set (waiters dd)"
    by simp
  then have "map_of (waiters dd) waiterid \<noteq> None"
    by (simp add: map_of_eq_None_iff)
  then have same: "waiters dd2 = waiters dd"
    by (auto simp: d1 d2 index_default_def)
  have "fst ` set (waiters dd) - fst ` set (AList.update waiterid lck' cyc)
      \<subset> fst ` set (waiters dd) - fst ` set cyc"
    using mem fresh by (auto simp: dom_update)
  then have "card (fst ` set (waiters dd) - fst ` set (AList.update waiterid lck' cyc))
      < card (fst ` set (waiters dd) - fst ` set cyc)"
    by (intro psubset_card_mono) simp_all
  with same show "((dd2, lck', AList.update waiterid lck' cyc), (dd, lck, cyc))
      \<in> measure (\<lambda>(dd, lck, cyc). card (fst ` set (waiters dd) - fst ` set cyc))"
    by simp
qed

definition detect_lock_cycle ::
  "DeadlockDetector \<Rightarrow> thread_id_t \<Rightarrow> mutex_ptr \<Rightarrow> lockcycle \<times> DeadlockDetector" where
  "detect_lock_cycle dd waiterid lck = detect_lock_cycle_loop dd lck (AList.update waiterid lck [])"

text \<open>
  \<open>select_waiter\<close>.  \<open>TimePoint latest_time;\<close> is value-initialised to the clock's
  epoch, \<open>0\<close>.  The loop keeps \<open>latest_time\<close> and \<open>latest_waiter\<close> and returns
  \<open>INVALID_THREADID\<close> at the first member whose announced lock differs from the
  recorded one.
\<close>

fun select_waiter_loop ::
  "thread_id_t \<Rightarrow> (thread_id_t \<Rightarrow> ThreadWaitInfo) \<Rightarrow> TimePoint \<Rightarrow> thread_id_t \<Rightarrow> lockcycle \<Rightarrow> thread_id_t" where
  "select_waiter_loop INVALID_THREADID info latest_time latest_waiter [] = latest_waiter"
| "select_waiter_loop INVALID_THREADID info latest_time latest_waiter (waiter # rest) =
     (let waiter_info = info (fst waiter);
          lck = waiting_on waiter_info;
          start = wait_start_time waiter_info;
          latest_time' = (if latest_time < start then start else latest_time);
          latest_waiter' = (if latest_time < start then fst waiter else latest_waiter)
      in if snd waiter \<noteq> lck then INVALID_THREADID
         else select_waiter_loop INVALID_THREADID info latest_time' latest_waiter' rest)"

definition select_waiter :: "thread_id_t \<Rightarrow> fair_state \<Rightarrow> lockcycle \<Rightarrow> thread_id_t" where
  "select_waiter INVALID_THREADID s cyc =
     select_waiter_loop INVALID_THREADID (global_wait_info s) 0 INVALID_THREADID cyc"

text \<open>
  The filter of \<open>verify_lock_cycle\<close> for the victim \<open>waiter\<close> and its recorded
  \<open>token\<close>; the captured locals are \<open>unparked\<close> and the flag of a failed assertion.
\<close>

definition verify_filter ::
  "thread_id_t \<Rightarrow> 64 word \<Rightarrow> WaitNodeData \<Rightarrow> (bool \<times> bool) \<times> fair_state
     \<Rightarrow> UnparkControl \<times> (bool \<times> bool) \<times> fair_state" where
  "verify_filter waiter token waitdata ls =
     (let ((unparked, failed), s) = ls in
      if tid waitdata = waiter \<and> wait_token waitdata = token then
        (if is_dead_locked_local s (is_dead_locked waitdata) then (RetainBreak, (unparked, True), s)
         else (RemoveBreak, (True, failed),
                 s\<lparr>is_dead_locked_local := (is_dead_locked_local s)(is_dead_locked waitdata := True)\<rparr>))
      else (RetainContinue, (unparked, failed), s))"

definition verify_lock_cycle ::
  "thread_id_t \<Rightarrow> lockcycle \<Rightarrow> DeadlockDetector \<times> fair_state \<Rightarrow> error + bool \<times> DeadlockDetector \<times> fair_state" where
  "verify_lock_cycle INVALID_THREADID cyc ds =
     (let (dd, s) = ds in
      if cyc = [] then Inr (False, dd, s)
      else
        let waiter = select_waiter INVALID_THREADID s cyc;
            (entry, waiters1) = index_default waiter default_WaiterInfo (waiters dd);
            (entry', waiters2) = index_default waiter default_WaiterInfo waiters1;
            dd' = dd\<lparr>waiters := waiters2\<rparr>;
            r = unpark_fair (wi_lock entry) (verify_filter waiter (wi_wait_token entry')) ((False, False), s)
        in if snd (fst r) then Inl AssertionFailed else Inr (fst (fst r), dd', snd r))"

text \<open>
  \<open>run\<close>.  The range-for over \<open>waiters\<close> visits the entries that \<open>gather\<close> recorded;
  the value-initialised entry that \<open>verify_lock_cycle\<close> may insert for
  \<open>INVALID_THREADID\<close> is not among them.
\<close>

fun run_loop ::
  "thread_id_t \<Rightarrow> (thread_id_t \<times> WaiterInfo) list \<Rightarrow> DeadlockDetector \<times> fair_state
     \<Rightarrow> error + bool \<times> DeadlockDetector \<times> fair_state" where
  "run_loop INVALID_THREADID [] ds = Inr (False, fst ds, snd ds)"
| "run_loop INVALID_THREADID (waiter # rest) ds =
     (let (cyc, dd1) = detect_lock_cycle (fst ds) (fst waiter) (wi_lock (snd waiter)) in
      case verify_lock_cycle INVALID_THREADID cyc (dd1, snd ds) of
        Inl e \<Rightarrow> Inl e
      | Inr (unparked, dd2, s2) \<Rightarrow>
          if unparked then Inr (True, dd2, s2) else run_loop INVALID_THREADID rest (dd2, s2))"

definition run :: "thread_id_t \<Rightarrow> thread_id_t \<Rightarrow> fair_state \<Rightarrow> error + bool \<times> DeadlockDetector \<times> fair_state" where
  "run INVALID_THREADID MAX_THREADS s =
     (case gather_waiters_and_holders_info MAX_THREADS s of
        Inl e \<Rightarrow> Inl e
      | Inr (dd, s1) \<Rightarrow> run_loop INVALID_THREADID (waiters dd) (dd, s1))"

subsection \<open>Wait episodes of one thread\<close>

text \<open>
  The tokens of the successive waits of one deadlock-safe thread: each episode is an
  \<open>announce_wait\<close> with its lock and clock value, followed by \<open>denounce_wait\<close>.
\<close>

fun wait_episodes :: "(mutex_ptr \<times> TimePoint) list \<Rightarrow> ThreadWaitInfo \<Rightarrow> 64 word list" where
  "wait_episodes [] info = []"
| "wait_episodes (e # es) info =
     (let (token, info') = announce_wait True (fst e) (snd e) info
      in token # wait_episodes es (denounce_wait True info'))"

subsection \<open>States of one fair mutex between atomic operations\<close>

text \<open>
  The states that the mutex \<open>this\<close> can be in between two atomic operations, from its
  construction: each rule is one atomic write of the word (the CAS of \<open>try_lock\<close>, the
  three retry loops, the releasing CAS of \<open>unlock\<close>, which is tried only when the word
  read has no waiters), and \<open>elsewhere\<close> is any step that leaves the word of \<open>this\<close>
  alone (parking, announcing, operations on other mutexes).  \<open>lock\<close> and \<open>unlock\<close> are
  sequences of these steps.
\<close>

inductive reachable :: "thread_id_t \<Rightarrow> mutex_ptr \<Rightarrow> fair_state \<Rightarrow> bool"
  for MAX_THREADS :: thread_id_t and this :: mutex_ptr where
  constructed: "words s this = LockWord_get_unlocked_word MAX_THREADS \<Longrightarrow> reachable MAX_THREADS this s"
| try_lock: "reachable MAX_THREADS this s \<Longrightarrow>
     reachable MAX_THREADS this (snd (try_lock_fair MAX_THREADS this me s))"
| increment: "reachable MAX_THREADS this s \<Longrightarrow>
     reachable MAX_THREADS this (snd (increment_num_waiters MAX_THREADS this s))"
| decrement: "reachable MAX_THREADS this s \<Longrightarrow>
     reachable MAX_THREADS this (snd (decrement_num_waiters this s))"
| transfer: "reachable MAX_THREADS this s \<Longrightarrow> reachable MAX_THREADS this (transfer_lock this t s)"
| release: "reachable MAX_THREADS this s \<Longrightarrow> \<not> has_waiters (words s this) \<Longrightarrow>
     reachable MAX_THREADS this (s\<lparr>words := (words s)(this := LockWord_get_unlocked_word MAX_THREADS)\<rparr>)"
| elsewhere: "reachable MAX_THREADS this s \<Longrightarrow> words s' this = words s this \<Longrightarrow>
     reachable MAX_THREADS this s'"

declare increment_num_waiters.simps [simp del] decrement_num_waiters.simps [simp del]
  transfer_lock.simps [simp del] uncontended_path_available.simps [simp del]
  detect_deadlock_loop.simps [simp del] detect_lock_cycle_loop.simps [simp del]
  lock_std.simps [simp del]

section \<open>Example states\<close>

text \<open>A deadlock-safe standard mutex whose word is \<open>w\<close>, with two threads parked on it.\<close>

definition two_parked :: "thread_id_t \<Rightarrow> std_state" where
  "two_parked w =
     \<lparr>words_std = (\<lambda>_. w), thread_waiting_on = (\<lambda>_. None),
      parkinglot_std = (\<lambda>_. [(), ()]), dead_lock_verify_mutex = False\<rparr>"

text \<open>The wait info of a thread that never waited, and one whose counter is at its maximum.\<close>

definition fresh_info :: ThreadWaitInfo where
  "fresh_info = \<lparr>waiting_on = None, wait_start_time = 0, current_wait_token = 0\<rparr>"

definition wrapped_info :: ThreadWaitInfo where
  "wrapped_info = \<lparr>waiting_on = None, wait_start_time = 0, current_wait_token = - 1\<rparr>"

text \<open>Fair mutexes just constructed: every word unlocked, nobody parked or waiting.\<close>

definition fresh_fair :: "thread_id_t \<Rightarrow> fair_state" where
  "fresh_fair MAX_THREADS =
     \<lparr>words = (\<lambda>_. LockWord_get_unlocked_word MAX_THREADS), parkinglot = (\<lambda>_. []),
      global_wait_info = (\<lambda>_. fresh_info), is_dead_locked_local = (\<lambda>_. False)\<rparr>"

text \<open>
  Thread \<open>1\<close> holds the mutexes and one waiter is registered on each; the
  \<open>is_dead_locked\<close> local of thread \<open>2\<close> is set.
\<close>

definition deadlocked_waiter :: fair_state where
  "deadlocked_waiter =
     \<lparr>words = (\<lambda>_. \<lparr>holder = 1, num_waiters = 1\<rparr>), parkinglot = (\<lambda>_. []),
      global_wait_info = (\<lambda>_. fresh_info), is_dead_locked_local = (\<lambda>t. t = 2)\<rparr>"

text \<open>Thread \<open>1\<close> holds every mutex; nobody waits.\<close>

definition held_by_1 :: fair_state where
  "held_by_1 =
     \<lparr>words = (\<lambda>_. \<lparr>holder = 1, num_waiters = 0\<rparr>), parkinglot = (\<lambda>_. []),
      global_wait_info = (\<lambda>_. fresh_info), is_dead_locked_local = (\<lambda>_. False)\<rparr>"

text \<open>Thread \<open>1\<close> holds the mutexes, two waiters are counted and thread \<open>2\<close> is parked.\<close>

definition one_parked :: fair_state where
  "one_parked =
     \<lparr>words = (\<lambda>_. \<lparr>holder = 1, num_waiters = 2\<rparr>),
      parkinglot = (\<lambda>_. [\<lparr>tid = 2, wait_token = 1, is_dead_locked = 2\<rparr>]),
      global_wait_info = (\<lambda>_. fresh_info), is_dead_locked_local = (\<lambda>_. False)\<rparr>"

text \<open>
  Threads \<open>1\<close> and \<open>2\<close> wait on the locks \<open>10\<close> and \<open>20\<close>, each held by the other; both
  waits started at the same instant \<open>start\<close>.  \<open>tied_cycle\<close> is their cycle as one
  iteration order of the map gives it, \<open>rev tied_cycle\<close> as the other does.
\<close>

definition waiting_since :: "TimePoint \<Rightarrow> fair_state" where
  "waiting_since start =
     \<lparr>words = (\<lambda>m. \<lparr>holder = (if m = Some 10 then 2 else 1), num_waiters = 1\<rparr>),
      parkinglot = (\<lambda>m. if m = Some 10 then [\<lparr>tid = 1, wait_token = 1, is_dead_locked = 1\<rparr>]
                         else [\<lparr>tid = 2, wait_token = 1, is_dead_locked = 2\<rparr>]),
      global_wait_info = (\<lambda>t. \<lparr>waiting_on = (if t = 1 then Some 10 else Some 20),
                               wait_start_time = start, current_wait_token = 1\<rparr>),
      is_dead_locked_local = (\<lambda>_. False)\<rparr>"

definition tied :: fair_state where
  "tied = waiting_since 5"

definition tied_cycle :: lockcycle where
  "tied_cycle = [(2, Some 20), (1, Some 10)]"

text \<open>
  A deadlock of two threads: thread \<open>1\<close> holds lock \<open>20\<close> and is parked on lock
  \<open>10\<close> since time \<open>5\<close>, thread \<open>2\<close> holds lock \<open>10\<close> and is parked on lock \<open>20\<close>
  since time \<open>7\<close>; \<open>INVALID_THREADID\<close> and \<open>MAX_THREADS\<close> are \<open>8\<close>.
  \<open>pair_detector\<close> is what the detector gathers there, \<open>fresh_cycle\<close> the cycle it
  finds, \<open>stale_cycle\<close> a cycle recorded when thread \<open>1\<close> still waited on lock \<open>30\<close>,
  and \<open>pair_resolved\<close> the state with thread \<open>2\<close> woken as the victim.
\<close>

definition deadlock_pair :: fair_state where
  "deadlock_pair =
     \<lparr>words = (\<lambda>_. \<lparr>holder = 8, num_waiters = 0\<rparr>)
        (Some 10 := \<lparr>holder = 2, num_waiters = 1\<rparr>, Some 20 := \<lparr>holder = 1, num_waiters = 1\<rparr>),
      parkinglot = (\<lambda>_. [])
        (Some 10 := [\<lparr>tid = 1, wait_token = 1, is_dead_locked = 1\<rparr>],
         Some 20 := [\<lparr>tid = 2, wait_token = 1, is_dead_locked = 2\<rparr>]),
      global_wait_info = (\<lambda>_. fresh_info)
        (1 := \<lparr>waiting_on = Some 10, wait_start_time = 5, current_wait_token = 1\<rparr>,
         2 := \<lparr>waiting_on = Some 20, wait_start_time = 7, current_wait_token = 1\<rparr>),
      is_dead_locked_local = (\<lambda>_. False)\<rparr>"

definition pair_detector :: DeadlockDetector where
  "pair_detector =
     \<lparr>waiters = [(1, \<lparr>wi_lock = Some 10, wi_wait_token = 1\<rparr>), (2, \<lparr>wi_lock = Some 20, wi_wait_token = 1\<rparr>)],
      holders = [(Some 10, 2), (Some 20, 1)]\<rparr>"

definition stale_cycle :: lockcycle where
  "stale_cycle = [(1, Some 30), (2, Some 20)]"

definition fresh_cycle :: lockcycle where
  "fresh_cycle = [(1, Some 10), (2, Some 20)]"

definition pair_resolved :: fair_state where
  "pair_resolved =
     deadlock_pair\<lparr>is_dead_locked_local := (is_dead_locked_local deadlock_pair)(2 := True),
                   parkinglot := (parkinglot deadlock_pair)(Some 20 := [])\<rparr>"

text \<open>
  A deadlock of two threads on deadlock-safe standard mutexes: thread \<open>2\<close> holds lock
  \<open>10\<close> and is parked on lock \<open>20\<close>, which thread \<open>1\<close> holds.  Thread \<open>1\<close> then calls
  \<open>lock\<close> on lock \<open>10\<close>: \<open>std_timed_out\<close> is the state when its sleep has ended by the
  timeout (\<open>timed_out_10\<close> takes it out of the queue again), \<open>std_denounced\<close> the state
  when it has confirmed the deadlock.
\<close>

definition std_deadlock :: std_state where
  "std_deadlock =
     \<lparr>words_std = (\<lambda>_. get_unlocked_word)(Some 10 := get_lock_word 2, Some 20 := get_lock_word 1),
      thread_waiting_on = (\<lambda>_. None)(2 := Some 20),
      parkinglot_std = (\<lambda>_. [])(Some 20 := [()]),
      dead_lock_verify_mutex = False\<rparr>"

definition timed_out_10 :: "std_state \<Rightarrow> std_state" where
  "timed_out_10 s = s\<lparr>parkinglot_std := (parkinglot_std s)(Some 10 := butlast (parkinglot_std s (Some 10)))\<rparr>"

definition std_timed_out :: std_state where
  "std_timed_out = std_deadlock\<lparr>thread_waiting_on := (thread_waiting_on std_deadlock)(1 := Some 10)\<rparr>"

definition std_denounced :: std_state where
  "std_denounced = std_timed_out\<lparr>thread_waiting_on := (thread_waiting_on std_timed_out)(1 := None)\<rparr>"

section \<open>The lock word of the standard mutex\<close>

lemma M_CONTENDED_MASK_value: "M_CONTENDED_MASK = 0x80000000"
  by (simp add: M_CONTENDED_MASK_def)

lemma M_UNLOCKED_value: "M_UNLOCKED = 0x7FFFFFFF"
  by (simp add: M_UNLOCKED_def M_CONTENDED_MASK_value)

text \<open>
  In the deadlock-safe instantiation \<open>is_lock_contented\<close> compares the masked word
  with \<open>0\<close>: it holds exactly of the words whose high bit is clear.
\<close>

lemma is_lock_contented_iff_high_bit_clear: "is_lock_contented w \<longleftrightarrow> \<not> bit w 31"
  unfolding is_lock_contented_def M_CONTENDED_MASK_def
  by (simp only: push_bit_of_1 and_exp_eq_0_iff_not_bit) simp

lemma get_contented_word_high_bit: "bit (get_contented_word t) 31"
  by (simp add: get_contented_word_def M_CONTENDED_MASK_def bit_or_iff bit_push_bit_iff)

lemma get_contented_word_not_contented: "\<not> is_lock_contented (get_contented_word t)"
  by (simp add: is_lock_contented_iff_high_bit_clear get_contented_word_high_bit)

text \<open>The lean instantiation recognises exactly the contended word.\<close>

lemma is_lock_contented_lean_iff:
  "is_lock_contented_lean get_contented_word_lean
   \<and> \<not> is_lock_contented_lean get_lock_word_lean
   \<and> \<not> is_lock_contented_lean get_unlocked_word_lean"
  by (simp add: is_lock_contented_lean_def get_contented_word_lean_def get_lock_word_lean_def
      get_unlocked_word_lean_def)

text \<open>
  C2.  The claim: the high bit of the deadlock-safe lock word is the contention flag and
  \<open>is_lock_contented\<close> is true exactly of the words that have it, so the contended word
  of a thread is recognised and its plain lock word and the unlocked sentinel are not.
  The code at thread id \<open>1\<close>: the contended word \<open>0x80000001\<close> is not recognised, the
  lock word \<open>1\<close> and the sentinel \<open>0x7FFFFFFF\<close> are.
\<close>

theorem is_lock_contented_inverted:
  "is_lock_contented (get_contented_word 1) = False
   \<and> is_lock_contented (get_lock_word 1) = True
   \<and> is_lock_contented get_unlocked_word = True"
  by (simp add: is_lock_contented_def get_contented_word_def get_lock_word_def
      get_unlocked_word_def M_UNLOCKED_value M_CONTENDED_MASK_value)

section \<open>\<open>unlock\<close> of the standard mutex\<close>

lemma unpark_RemoveBreak: "unpark (\<lambda>_ st. (RemoveBreak, st)) q s = (tl q, s)"
  by (cases q) simp_all

text \<open>
  The deadlock-safe \<open>unlock\<close> wakes the first parked waiter exactly when the high bit
  of the old word is clear.
\<close>

lemma unlock_std_eq:
  "unlock_std this s =
     (if bit (words_std s this) 31
      then s\<lparr>words_std := (words_std s)(this := get_unlocked_word)\<rparr>
      else s\<lparr>words_std := (words_std s)(this := get_unlocked_word),
             parkinglot_std := (parkinglot_std s)(this := tl (parkinglot_std s this))\<rparr>)"
  by (simp add: unlock_std_def unpark_std_def unpark_RemoveBreak Let_def
      is_lock_contented_iff_high_bit_clear)

text \<open>The lean \<open>unlock\<close> wakes the first parked waiter exactly when the old word is contended.\<close>

lemma unlock_lean_eq:
  "unlock_lean this s =
     (if words_lean s this = LS_CONTENTED
      then s\<lparr>words_lean := (words_lean s)(this := LS_UNLOCKED),
             parkinglot_lean := (parkinglot_lean s)(this := tl (parkinglot_lean s this))\<rparr>
      else s\<lparr>words_lean := (words_lean s)(this := LS_UNLOCKED)\<rparr>)"
  by (simp add: unlock_lean_def unpark_RemoveBreak Let_def is_lock_contented_lean_def
      get_unlocked_word_lean_def)

text \<open>
  C3.  The claim: \<open>unlock\<close> exchanges the word to \<open>UNLOCKED\<close> and unparks exactly one
  waiter if and only if the old word was contended; from an uncontended locked word it
  unparks nobody.  The deadlock-safe code with two waiters parked: from the uncontended
  lock word of thread \<open>1\<close> one waiter is removed, from the contended word of thread \<open>1\<close>
  both stay parked; the word is \<open>UNLOCKED\<close> afterwards in both runs.
\<close>

theorem unlock_std_unparks_on_uncontended_word:
  "parkinglot_std (unlock_std (Some 0) (two_parked (get_lock_word 1))) (Some 0) = [()]
   \<and> parkinglot_std (unlock_std (Some 0) (two_parked (get_contented_word 1))) (Some 0) = [(), ()]
   \<and> words_std (unlock_std (Some 0) (two_parked (get_lock_word 1))) (Some 0) = get_unlocked_word
   \<and> words_std (unlock_std (Some 0) (two_parked (get_contented_word 1))) (Some 0) = get_unlocked_word"
  by (simp add: unlock_std_eq two_parked_def get_lock_word_def get_contented_word_high_bit)

section \<open>Wait tokens\<close>

lemma announce_wait_token:
  "fst (announce_wait True lck now info) = current_wait_token info + 1"
  "current_wait_token (snd (announce_wait True lck now info)) = current_wait_token info + 1"
  by (simp_all add: announce_wait_def Let_def)

lemma denounce_wait_token:
  "current_wait_token (denounce_wait b info) = current_wait_token info"
  by (simp add: denounce_wait_def)

text \<open>The token of the \<open>i\<close>-th next episode is the counter plus \<open>i + 1\<close>, modulo \<open>2^64\<close>.\<close>

lemma wait_episodes_tokens:
  "wait_episodes es info = map (\<lambda>i. current_wait_token info + of_nat (Suc i)) [0..<length es]"
proof (induction es arbitrary: info)
  case Nil
  show ?case by simp
next
  case (Cons e es)
  have "map (\<lambda>i. current_wait_token info + of_nat (Suc i)) [0..<length (e # es)]
      = (current_wait_token info + 1)
        # map (\<lambda>i. current_wait_token info + 1 + of_nat (Suc i)) [0..<length es]"
    by (simp add: upt_rec [of 0] map_Suc_upt [symmetric] del: upt_Suc add: algebra_simps)
  then show ?case
    by (simp add: Cons.IH case_prod_beta announce_wait_token denounce_wait_token)
qed

lemma of_nat_Suc_inj_on:
  assumes "n \<le> 2 ^ 64"
  shows "inj_on (\<lambda>i. c + (of_nat (Suc i) :: 64 word)) {0..<n}"
proof (rule inj_onI)
  fix i j assume i: "i \<in> {0..<n}" and j: "j \<in> {0..<n}"
    and eq: "c + (of_nat (Suc i) :: 64 word) = c + of_nat (Suc j)"
  from eq have "(of_nat (Suc i) :: 64 word) = of_nat (Suc j)" by simp
  then have "Suc i mod 2 ^ 64 = Suc j mod 2 ^ 64"
    by (simp only: word_of_nat_eq_iff take_bit_eq_mod) simp
  moreover from i j assms have "Suc i \<le> 2 ^ 64" "Suc j \<le> 2 ^ 64" by auto
  ultimately show "i = j"
    by (cases "Suc i = 2 ^ 64"; cases "Suc j = 2 ^ 64") auto
qed

text \<open>
  C9, as stated: \<open>current_wait_token\<close> strictly increases with each announcement, so no
  two episodes of a thread share a token.  The counter is a 64-bit unsigned integer and
  \<open>++\<close> wraps: at the maximum the announced token is \<open>0\<close>, and the first and the
  \<open>2^64 + 1\<close>-st episode of a thread have the same token.
\<close>

theorem wait_token_wraps:
  "\<not> current_wait_token wrapped_info < fst (announce_wait True (Some 0) 0 wrapped_info)
   \<and> wait_episodes (replicate (2 ^ 64 + 1) (Some 0, 0)) fresh_info ! 0
     = wait_episodes (replicate (2 ^ 64 + 1) (Some 0, 0)) fresh_info ! (2 ^ 64)"
  by (simp add: wait_episodes_tokens announce_wait_token wrapped_info_def fresh_info_def)

text \<open>
  C9, amended: each announcement of a deadlock-safe thread strictly increases
  \<open>current_wait_token\<close> unless the counter is at \<open>2^64 - 1\<close>, and any \<open>2^64\<close>
  consecutive wait episodes of a thread have pairwise distinct tokens.
\<close>

theorem wait_token_increases_until_wrap:
  "(current_wait_token info \<noteq> - 1 \<longrightarrow>
      current_wait_token info < fst (announce_wait True lck now info))
   \<and> (length es \<le> 2 ^ 64 \<longrightarrow> distinct (wait_episodes es info))"
proof (intro conjI impI)
  assume "current_wait_token info \<noteq> - 1"
  then show "current_wait_token info < fst (announce_wait True lck now info)"
    by (simp add: announce_wait_token)
       (metis inc_less_eq_triv_imp linorder_less_linear word_le_less_eq)
next
  assume "length es \<le> 2 ^ 64"
  then have "inj_on (\<lambda>i. current_wait_token info + (of_nat (Suc i) :: 64 word)) (set [0..<length es])"
    by (simp only: set_upt of_nat_Suc_inj_on)
  then show "distinct (wait_episodes es info)"
    unfolding wait_episodes_tokens distinct_map by (intro conjI distinct_upt)
qed

theorem wait_token_increases_until_wrap_witness:
  "current_wait_token fresh_info \<noteq> - 1
   \<and> current_wait_token fresh_info < fst (announce_wait True (Some 0) 7 fresh_info)
   \<and> length [(Some 0, 7), (Some 1, 9 :: int)] \<le> 2 ^ 64
   \<and> distinct (wait_episodes [(Some 0, 7), (Some 1, 9)] fresh_info)"
  using wait_token_increases_until_wrap [of fresh_info "Some 0" 7 "[(Some 0, 7), (Some 1, 9)]"]
  by (simp add: fresh_info_def)

section \<open>The atomic steps of the fair mutex\<close>

lemma decrement_num_waiters_eq:
  "decrement_num_waiters this s =
     (True, s\<lparr>words := (words s)(this := LockWord_decrement_num_waiters (words s this))\<rparr>)"
  by (subst decrement_num_waiters.simps) (simp add: compare_exchange_strong_def)

lemma increment_num_waiters_eq:
  "increment_num_waiters MAX_THREADS this s =
     (if LockWord_is_locked MAX_THREADS (words s this)
      then (True, s\<lparr>words := (words s)(this := LockWord_increment_num_waiters (words s this))\<rparr>)
      else (False, s))"
  by (subst increment_num_waiters.simps) (simp add: compare_exchange_strong_def)

lemma transfer_lock_eq:
  "transfer_lock this t s = s\<lparr>words := (words s)(this := LockWord_transfer_lock t (words s this))\<rparr>"
  by (subst transfer_lock.simps) (simp add: compare_exchange_strong_def)

lemma try_lock_fair_eq:
  "try_lock_fair MAX_THREADS this me s =
     (if words s this = LockWord_get_unlocked_word MAX_THREADS
      then (True, s\<lparr>words := (words s)(this := LockWord_get_lock_word me)\<rparr>)
      else (False, s))"
  by (simp add: try_lock_fair_def compare_exchange_strong_def)

lemma observers_of_word: "{t. is_locked_by_me this t s} = {holder (words s this)}"
  by (auto simp: is_locked_by_me_def LockWord_is_locked_by_me_def)

text \<open>
  C1.  In every state that a fair mutex reaches by its atomic operations, at most one
  thread id makes \<open>is_locked_by_me\<close> true: the word has one \<open>holder\<close> field and every
  operation replaces the whole word.
\<close>

theorem at_most_one_thread_is_locked_by_me:
  "reachable MAX_THREADS this s \<Longrightarrow> card {t. is_locked_by_me this t s} \<le> 1"
  by (simp add: observers_of_word)

theorem at_most_one_thread_is_locked_by_me_witness:
  "reachable 8 (Some 0) (snd (try_lock_fair 8 (Some 0) 1 (fresh_fair 8)))
   \<and> is_locked_by_me (Some 0) 1 (snd (try_lock_fair 8 (Some 0) 1 (fresh_fair 8)))
   \<and> card {t. is_locked_by_me (Some 0) t (snd (try_lock_fair 8 (Some 0) 1 (fresh_fair 8)))} \<le> 1"
proof -
  have r: "reachable 8 (Some 0) (snd (try_lock_fair 8 (Some 0) 1 (fresh_fair 8)))"
    by (rule reachable.try_lock, rule reachable.constructed) (simp add: fresh_fair_def)
  from at_most_one_thread_is_locked_by_me [OF r] r show ?thesis
    by (simp add: try_lock_fair_eq fresh_fair_def is_locked_by_me_def LockWord_is_locked_by_me_def
        LockWord_get_lock_word_def)
qed

text \<open>
  C10.  \<open>decrement_num_waiters\<close> returns \<open>true\<close> from every state, with no test of the
  count: the new count is the old one minus one modulo \<open>2^32\<close>, so from \<open>0\<close> it is
  \<open>2^32 - 1\<close>.  When \<open>parkinglot.park\<close> returned \<open>Skip\<close> and the caller's
  \<open>is_dead_locked\<close> is set, \<open>park\<close> decrements twice (once in the lambda, once in the
  \<open>Skip\<close> branch) and reports \<open>PARKRES_LOCKED\<close>.
\<close>

theorem decrement_num_waiters_wraps:
  "decrement_num_waiters this s =
     (True, s\<lparr>words := (words s)(this :=
        \<lparr>holder = holder (words s this), num_waiters = num_waiters (words s this) - 1\<rparr>)\<rparr>)
   \<and> unat (num_waiters (LockWord_decrement_num_waiters w)) = (unat (num_waiters w) + (2 ^ 32 - 1)) mod 2 ^ 32
   \<and> (num_waiters w = 0 \<longrightarrow> num_waiters (LockWord_decrement_num_waiters w) = 0xFFFFFFFF)
   \<and> (is_dead_locked_local s me \<longrightarrow>
        fst (park_resume edd this me Skip s) = PARKRES_LOCKED
        \<and> num_waiters (words (snd (park_resume edd this me Skip s)) this) = num_waiters (words s this) - 2)"
proof (intro conjI impI)
  show "decrement_num_waiters this s =
     (True, s\<lparr>words := (words s)(this :=
        \<lparr>holder = holder (words s this), num_waiters = num_waiters (words s this) - 1\<rparr>)\<rparr>)"
    by (simp add: decrement_num_waiters_eq LockWord_decrement_num_waiters_def)
next
  have "unat (num_waiters w - 1) = (unat (num_waiters w) + (2 ^ 32 - 1)) mod 2 ^ 32"
  proof (cases "num_waiters w = 0")
    case True
    then show ?thesis by (simp add: unsigned_minus_1_eq_mask mask_eq_exp_minus_1)
  next
    case False
    then obtain k where k: "unat (num_waiters w) = Suc k"
      by (cases "unat (num_waiters w)") (simp_all add: unat_eq_zero)
    have "Suc k < 4294967296"
      using unsigned_less [of "num_waiters w", where ?'a = nat] by (simp add: k)
    then have "(Suc k + 4294967295) mod 4294967296 = k"
      by simp
    moreover from False have "unat (num_waiters w - 1) = unat (num_waiters w) - 1"
      by (rule unat_minus_one)
    ultimately show ?thesis by (simp add: k)
  qed
  then show "unat (num_waiters (LockWord_decrement_num_waiters w))
      = (unat (num_waiters w) + (2 ^ 32 - 1)) mod 2 ^ 32"
    by (simp add: LockWord_decrement_num_waiters_def)
next
  assume "num_waiters w = 0"
  then show "num_waiters (LockWord_decrement_num_waiters w) = 0xFFFFFFFF"
    by (simp add: LockWord_decrement_num_waiters_def)
next
  assume "is_dead_locked_local s me"
  then show "fst (park_resume edd this me Skip s) = PARKRES_LOCKED"
    by (simp add: park_resume_def park_lambda_return_def park_switch_def Let_def)
next
  assume "is_dead_locked_local s me"
  then show "num_waiters (words (snd (park_resume edd this me Skip s)) this) = num_waiters (words s this) - 2"
    by (simp add: park_resume_def park_lambda_return_def park_switch_def Let_def
        decrement_num_waiters_eq LockWord_decrement_num_waiters_def)
qed

theorem decrement_num_waiters_wraps_witness:
  "num_waiters \<lparr>holder = 1, num_waiters = 0\<rparr> = (0 :: 32 word)
   \<and> num_waiters (LockWord_decrement_num_waiters \<lparr>holder = 1, num_waiters = 0\<rparr>) = 0xFFFFFFFF
   \<and> is_dead_locked_local deadlocked_waiter 2
   \<and> fst (park_resume True (Some 0) 2 Skip deadlocked_waiter) = PARKRES_LOCKED
   \<and> num_waiters (words (snd (park_resume True (Some 0) 2 Skip deadlocked_waiter)) (Some 0)) = 0xFFFFFFFF"
  using decrement_num_waiters_wraps [of "Some 0" deadlocked_waiter "\<lparr>holder = 1, num_waiters = 0\<rparr>" 2 True]
  by (simp add: deadlocked_waiter_def)

section \<open>\<open>unlock\<close> of the fair mutex\<close>

lemma unpark_fair_unlock_filter:
  assumes "parkinglot s this = waitdata # rest"
    and "\<not> is_dead_locked_local s (is_dead_locked waitdata)"
  shows "unpark_fair this (unlock_filter this) ((False, False), s)
    = ((True, False), s\<lparr>words := (words s)(this := LockWord_transfer_lock (tid waitdata) (words s this)),
         parkinglot := (parkinglot s)(this := rest)\<rparr>)"
  using assms by (simp add: unpark_fair_def unlock_filter_def transfer_lock_eq)

text \<open>
  C5.  When \<open>unlock\<close> reads a word with waiters and a waiter is parked (its
  \<open>is_dead_locked\<close> unset, as the filter asserts), the filter answers \<open>RemoveBreak\<close>
  on the first waiter and \<open>unlock\<close> returns with the word replaced by that waiter's
  thread id and the count less one, the waiter taken out of the lot.  When the word is
  \<open>{self, 0}\<close>, the CAS from \<open>{self, 0}\<close> to \<open>{INVALID_HOLDER, 0}\<close> succeeds and
  \<open>unlock\<close> returns with the unlocked word.
\<close>

theorem unlock_fair_hands_off:
  "(has_waiters (words s this) \<and> parkinglot s this = waitdata # rest
      \<and> \<not> is_dead_locked_local s (is_dead_locked waitdata) \<longrightarrow>
        fst (unlock_filter this waitdata ((False, False), s)) = RemoveBreak
        \<and> unlock_fair MAX_THREADS this s =
            Some (Inr (s\<lparr>words := (words s)(this :=
                          \<lparr>holder = tid waitdata, num_waiters = num_waiters (words s this) - 1\<rparr>),
                        parkinglot := (parkinglot s)(this := rest)\<rparr>)))
   \<and> (words s this = \<lparr>holder = me, num_waiters = 0\<rparr> \<longrightarrow>
        compare_exchange_strong (words s this) \<lparr>holder = me, num_waiters = 0\<rparr>
            \<lparr>holder = MAX_THREADS, num_waiters = 0\<rparr>
          = (True, \<lparr>holder = MAX_THREADS, num_waiters = 0\<rparr>)
        \<and> unlock_fair MAX_THREADS this s =
            Some (Inr (s\<lparr>words := (words s)(this := \<lparr>holder = MAX_THREADS, num_waiters = 0\<rparr>)\<rparr>)))"
proof (intro conjI impI; (elim conjE)?)
  assume "has_waiters (words s this)" "parkinglot s this = waitdata # rest"
    "\<not> is_dead_locked_local s (is_dead_locked waitdata)"
  then show "unlock_fair MAX_THREADS this s =
      Some (Inr (s\<lparr>words := (words s)(this :=
                    \<lparr>holder = tid waitdata, num_waiters = num_waiters (words s this) - 1\<rparr>),
                  parkinglot := (parkinglot s)(this := rest)\<rparr>))"
    by (subst unlock_fair.simps)
       (simp add: unpark_fair_unlock_filter LockWord_transfer_lock_def)
next
  assume "\<not> is_dead_locked_local s (is_dead_locked waitdata)"
  then show "fst (unlock_filter this waitdata ((False, False), s)) = RemoveBreak"
    by (simp add: unlock_filter_def)
next
  assume "words s this = \<lparr>holder = me, num_waiters = 0\<rparr>"
  then show "unlock_fair MAX_THREADS this s =
      Some (Inr (s\<lparr>words := (words s)(this := \<lparr>holder = MAX_THREADS, num_waiters = 0\<rparr>)\<rparr>))"
    by (subst unlock_fair.simps)
       (simp add: has_waiters_def compare_exchange_strong_def LockWord_get_unlocked_word_def)
next
  assume "words s this = \<lparr>holder = me, num_waiters = 0\<rparr>"
  then show "compare_exchange_strong (words s this) \<lparr>holder = me, num_waiters = 0\<rparr>
            \<lparr>holder = MAX_THREADS, num_waiters = 0\<rparr>
          = (True, \<lparr>holder = MAX_THREADS, num_waiters = 0\<rparr>)"
    by (simp add: compare_exchange_strong_def)
qed

theorem unlock_fair_hands_off_witness:
  "has_waiters (words one_parked (Some 0))
   \<and> parkinglot one_parked (Some 0) = [\<lparr>tid = 2, wait_token = 1, is_dead_locked = 2\<rparr>]
   \<and> \<not> is_dead_locked_local one_parked 2
   \<and> unlock_fair 8 (Some 0) one_parked =
       Some (Inr (one_parked\<lparr>words := (words one_parked)(Some 0 := \<lparr>holder = 2, num_waiters = 1\<rparr>),
                    parkinglot := (parkinglot one_parked)(Some 0 := [])\<rparr>))
   \<and> words held_by_1 (Some 0) = \<lparr>holder = 1, num_waiters = 0\<rparr>
   \<and> unlock_fair 8 (Some 0) held_by_1 =
       Some (Inr (held_by_1\<lparr>words := (words held_by_1)(Some 0 := \<lparr>holder = 8, num_waiters = 0\<rparr>)\<rparr>))"
  using unlock_fair_hands_off [of one_parked "Some 0" "\<lparr>tid = 2, wait_token = 1, is_dead_locked = 2\<rparr>" "[]" 8 1]
    unlock_fair_hands_off [of held_by_1 "Some 0" "\<lparr>tid = 2, wait_token = 1, is_dead_locked = 2\<rparr>" "[]" 8 1]
  by (simp add: one_parked_def held_by_1_def has_waiters_def)

section \<open>\<open>park\<close> of the fair mutex returning \<open>Skip\<close>\<close>

lemma park_lot_Skip_iff:
  "fst (park_lot key waitdata validate env s) = Skip \<longleftrightarrow> \<not> validate s"
  by (simp add: park_lot_def)

lemma park_lambda_return_fst:
  "fst (fst (park_lambda_return edd this me res s)) = res"
  by (simp add: park_lambda_return_def Let_def)

text \<open>
  The lambda returns \<open>Skip\<close> only when the word names the caller as holder; its
  \<open>is_dead_locked\<close> is then unset and it has not touched the word.
\<close>

lemma park_lambda_Skip:
  assumes "fst (fst (park_lambda edd this me a s)) = Skip"
  shows "is_locked_by_me this me s"
    and "park_lambda edd this me a s =
      ((Skip, False),
       s\<lparr>is_dead_locked_local := (is_dead_locked_local s)(me := False),
         global_wait_info := (global_wait_info s)
           (me := denounce_wait edd (snd (announce_wait edd this (fst a) (global_wait_info s me))))\<rparr>)"
proof -
  let ?s2 = "s\<lparr>is_dead_locked_local := (is_dead_locked_local s)(me := False),
      global_wait_info := (global_wait_info s)
        (me := snd (announce_wait edd this (fst a) (global_wait_info s me)))\<rparr>"
  let ?wd = "\<lparr>tid = me, wait_token = fst (announce_wait edd this (fst a) (global_wait_info s me)),
      is_dead_locked = me\<rparr>"
  have lam: "park_lambda edd this me a s =
      park_lambda_return edd this me (fst (park_lot this ?wd (park_validate this me) (snd a) ?s2))
        (snd (park_lot this ?wd (park_validate this me) (snd a) ?s2))"
    by (simp add: park_lambda_def Let_def case_prod_beta)
  with assms have "fst (park_lot this ?wd (park_validate this me) (snd a) ?s2) = Skip"
    by (simp add: park_lambda_return_fst)
  then have nv: "\<not> park_validate this me ?s2"
    by (simp add: park_lot_Skip_iff)
  then show "is_locked_by_me this me s"
    by (simp add: park_validate_def is_locked_by_me_def)
  from nv have "park_lot this ?wd (park_validate this me) (snd a) ?s2 = (Skip, ?s2)"
    by (simp add: park_lot_def)
  then show "park_lambda edd this me a s =
      ((Skip, False),
       s\<lparr>is_dead_locked_local := (is_dead_locked_local s)(me := False),
         global_wait_info := (global_wait_info s)
           (me := denounce_wait edd (snd (announce_wait edd this (fst a) (global_wait_info s me))))\<rparr>)"
    by (simp add: lam park_lambda_return_def Let_def)
qed

lemma held_by_1_registers:
  "increment_num_waiters 8 (Some 0) held_by_1
     = (True, held_by_1\<lparr>words := (words held_by_1)(Some 0 := \<lparr>holder = 1, num_waiters = 1\<rparr>)\<rparr>)"
  by (simp add: increment_num_waiters_eq held_by_1_def LockWord_is_locked_def
      LockWord_increment_num_waiters_def)

lemma held_by_1_skips:
  "park_lambda True (Some 0) 1 (5, id)
       (held_by_1\<lparr>words := (words held_by_1)(Some 0 := \<lparr>holder = 1, num_waiters = 1\<rparr>)\<rparr>)
     = ((Skip, False),
        held_by_1\<lparr>words := (words held_by_1)(Some 0 := \<lparr>holder = 1, num_waiters = 1\<rparr>),
          global_wait_info := (global_wait_info held_by_1)
            (1 := \<lparr>waiting_on = None, wait_start_time = 5, current_wait_token = 1\<rparr>)\<rparr>)"
  by (simp add: park_lambda_def park_lambda_return_def park_lot_def park_validate_def
      is_locked_by_me_def LockWord_is_locked_by_me_def announce_wait_def denounce_wait_def
      held_by_1_def fresh_info_def Let_def fun_upd_idem_iff)

text \<open>
  C4, as stated: when \<open>park\<close> returns \<open>Skip\<close>, a waiter whose \<open>is_deadlocked\<close> flag is
  set gets one decrement and \<open>DEADLOCKED\<close>, and otherwise the count is decremented and
  the acquire is retried.  The code, for thread \<open>1\<close> calling \<open>lock\<close> on a mutex whose
  word is \<open>{1, 0}\<close>: the lambda returns \<open>(Skip, false)\<close>, \<open>park\<close> returns
  \<open>PARKRES_LOCKED\<close>, not \<open>PARKRES_RETRY\<close>, and \<open>lock\<close> returns \<open>LOCKED\<close> in its first
  round.
\<close>

theorem park_skip_is_not_retried:
  "fst (park_lambda True (Some 0) 1 (5, id) (snd (increment_num_waiters 8 (Some 0) held_by_1)))
     = (Skip, False)
   \<and> fst (park_fair True 8 (Some 0) 1 (5, id) held_by_1) = PARKRES_LOCKED
   \<and> lock_fair True 8 (Some 0) 1 [(5, id)] held_by_1
     = Some (Inr (LOCKED, held_by_1\<lparr>global_wait_info := (global_wait_info held_by_1)
         (1 := \<lparr>waiting_on = None, wait_start_time = 5, current_wait_token = 1\<rparr>)\<rparr>))"
proof -
  have pf: "park_fair True 8 (Some 0) 1 (5, id) held_by_1
      = (PARKRES_LOCKED, held_by_1\<lparr>global_wait_info := (global_wait_info held_by_1)
         (1 := \<lparr>waiting_on = None, wait_start_time = 5, current_wait_token = 1\<rparr>)\<rparr>)"
    by (simp add: park_fair_def held_by_1_registers held_by_1_skips park_switch_def
        decrement_num_waiters_eq LockWord_decrement_num_waiters_def)
       (simp add: held_by_1_def fun_upd_idem_iff)
  have tl: "try_lock_fair 8 (Some 0) 1 held_by_1 = (False, held_by_1)"
    by (simp add: try_lock_fair_eq held_by_1_def LockWord_get_unlocked_word_def)
  show ?thesis
    by (simp add: held_by_1_registers held_by_1_skips pf tl is_locked_by_me_def
        LockWord_is_locked_by_me_def)
       (simp add: held_by_1_def)
qed

text \<open>
  C4, amended: when a \<open>lock\<close> call whose \<open>try_lock\<close> missed has registered as waiter
  and \<open>parkinglot.park\<close> returns \<open>Skip\<close>, the waiter's \<open>is_dead_locked\<close> is unset and
  the word names the caller as holder; \<open>park\<close> then decrements \<open>num_waiters\<close> exactly
  once (the word is again what it was before the registration) and reports
  \<open>PARKRES_LOCKED\<close>, and \<open>lock\<close> returns \<open>LOCKED\<close> without another round.
\<close>

theorem park_skip_reports_locked:
  assumes miss: "\<not> fst (try_lock_fair MAX_THREADS this me s)"
    and registered: "fst (increment_num_waiters MAX_THREADS this s)"
    and skip: "fst (fst (park_lambda edd this me a (snd (increment_num_waiters MAX_THREADS this s)))) = Skip"
  shows "\<not> snd (fst (park_lambda edd this me a (snd (increment_num_waiters MAX_THREADS this s))))
    \<and> is_locked_by_me this me s
    \<and> fst (park_fair edd MAX_THREADS this me a s) = PARKRES_LOCKED
    \<and> words (snd (park_fair edd MAX_THREADS this me a s)) this
        = LockWord_decrement_num_waiters (words (snd (increment_num_waiters MAX_THREADS this s)) this)
    \<and> words (snd (park_fair edd MAX_THREADS this me a s)) this = words s this
    \<and> lock_fair edd MAX_THREADS this me (a # as) s
        = Some (Inr (LOCKED, snd (park_fair edd MAX_THREADS this me a s)))"
proof -
  let ?s0 = "snd (increment_num_waiters MAX_THREADS this s)"
  from registered have s0: "?s0 = s\<lparr>words := (words s)(this := LockWord_increment_num_waiters (words s this))\<rparr>"
    by (simp add: increment_num_waiters_eq split: if_splits)
  note lam = park_lambda_Skip [OF skip]
  from lam(1) have mine: "is_locked_by_me this me s"
    by (simp add: s0 is_locked_by_me_def LockWord_is_locked_by_me_def LockWord_increment_num_waiters_def)
  have pf: "park_fair edd MAX_THREADS this me a s = park_switch this (Skip, False) (snd (park_lambda edd this me a ?s0))"
    using registered lam(2) by (simp add: park_fair_def case_prod_beta)
  have res: "fst (park_fair edd MAX_THREADS this me a s) = PARKRES_LOCKED"
    by (simp add: pf park_switch_def)
  have w1: "words (snd (park_fair edd MAX_THREADS this me a s)) this
      = LockWord_decrement_num_waiters (words ?s0 this)"
    by (simp add: pf park_switch_def lam(2) decrement_num_waiters_eq)
  have w2: "words (snd (park_fair edd MAX_THREADS this me a s)) this = words s this"
    by (simp add: w1 s0 LockWord_decrement_num_waiters_def LockWord_increment_num_waiters_def)
  from mine w2 have mine': "is_locked_by_me this me (snd (park_fair edd MAX_THREADS this me a s))"
    by (simp add: is_locked_by_me_def)
  from miss have tl: "try_lock_fair MAX_THREADS this me s = (False, s)"
    by (simp add: try_lock_fair_eq split: if_splits)
  obtain s' where pf': "park_fair edd MAX_THREADS this me a s = (PARKRES_LOCKED, s')"
    using res by (cases "park_fair edd MAX_THREADS this me a s") simp
  have "lock_fair edd MAX_THREADS this me (a # as) s
      = Some (Inr (LOCKED, snd (park_fair edd MAX_THREADS this me a s)))"
    using mine' by (simp add: tl pf')
  with lam(2) mine res w1 w2 show ?thesis by simp
qed

theorem park_skip_reports_locked_witness:
  "\<not> fst (try_lock_fair 8 (Some 0) 1 held_by_1)
   \<and> fst (increment_num_waiters 8 (Some 0) held_by_1)
   \<and> fst (fst (park_lambda True (Some 0) 1 (5, id) (snd (increment_num_waiters 8 (Some 0) held_by_1)))) = Skip
   \<and> is_locked_by_me (Some 0) 1 held_by_1
   \<and> fst (park_fair True 8 (Some 0) 1 (5, id) held_by_1) = PARKRES_LOCKED
   \<and> words (snd (park_fair True 8 (Some 0) 1 (5, id) held_by_1)) (Some 0) = words held_by_1 (Some 0)
   \<and> lock_fair True 8 (Some 0) 1 [(5, id)] held_by_1
     = Some (Inr (LOCKED, snd (park_fair True 8 (Some 0) 1 (5, id) held_by_1)))"
proof -
  have miss: "\<not> fst (try_lock_fair 8 (Some 0) 1 held_by_1)"
    by (simp add: try_lock_fair_eq held_by_1_def LockWord_get_unlocked_word_def)
  have registered: "fst (increment_num_waiters 8 (Some 0) held_by_1)"
    by (simp add: held_by_1_registers)
  have skip: "fst (fst (park_lambda True (Some 0) 1 (5, id)
      (snd (increment_num_waiters 8 (Some 0) held_by_1)))) = Skip"
    by (simp add: held_by_1_registers held_by_1_skips)
  from park_skip_reports_locked [OF miss registered skip, of "[]"] miss registered skip
  show ?thesis by blast
qed

section \<open>Victim selection of the detector\<close>

text \<open>
  The loop of \<open>select_waiter\<close> on a cycle whose members all still announce the
  recorded lock: if no member started later than \<open>latest_time\<close> the running
  \<open>latest_waiter\<close> is returned, otherwise the first member, in iteration order, of
  those that started latest.
\<close>

lemma select_waiter_loop_fresh:
  assumes "\<forall>w\<in>set cyc. snd w = waiting_on (info (fst w))"
  shows "if \<forall>w\<in>set cyc. wait_start_time (info (fst w)) \<le> lt
         then select_waiter_loop INV info lt lw cyc = lw
         else lt < wait_start_time (info (select_waiter_loop INV info lt lw cyc))
           \<and> (\<exists>pre l post. cyc = pre @ (select_waiter_loop INV info lt lw cyc, l) # post
                 \<and> (\<forall>w\<in>set pre. wait_start_time (info (fst w))
                       < wait_start_time (info (select_waiter_loop INV info lt lw cyc)))
                 \<and> (\<forall>w\<in>set post. wait_start_time (info (fst w))
                       \<le> wait_start_time (info (select_waiter_loop INV info lt lw cyc))))"
  using assms
proof (induction cyc arbitrary: lt lw)
  case Nil
  show ?case by simp
next
  case (Cons w rest)
  let ?st = "wait_start_time (info (fst w))"
  from Cons.prems have fresh: "\<forall>w\<in>set rest. snd w = waiting_on (info (fst w))"
    and w: "snd w = waiting_on (info (fst w))"
    by simp_all
  show ?case
  proof (cases "lt < ?st")
    case True
    then have step: "select_waiter_loop INV info lt lw (w # rest)
        = select_waiter_loop INV info ?st (fst w) rest"
      using w by (simp add: Let_def)
    let ?v = "select_waiter_loop INV info ?st (fst w) rest"
    note IH = Cons.IH [OF fresh, of ?st "fst w"]
    from True have notall: "\<not> (\<forall>u\<in>set (w # rest). wait_start_time (info (fst u)) \<le> lt)"
      by auto
    have "lt < wait_start_time (info ?v)
        \<and> (\<exists>pre l post. w # rest = pre @ (?v, l) # post
              \<and> (\<forall>u\<in>set pre. wait_start_time (info (fst u)) < wait_start_time (info ?v))
              \<and> (\<forall>u\<in>set post. wait_start_time (info (fst u)) \<le> wait_start_time (info ?v)))"
    proof (cases "\<forall>u\<in>set rest. wait_start_time (info (fst u)) \<le> ?st")
      case all: True
      with IH have v: "?v = fst w" by simp
      have "\<exists>pre l post. w # rest = pre @ (fst w, l) # post
          \<and> (\<forall>u\<in>set pre. wait_start_time (info (fst u)) < ?st)
          \<and> (\<forall>u\<in>set post. wait_start_time (info (fst u)) \<le> ?st)"
        using all by (intro exI [of _ "[]"] exI [of _ "snd w"] exI [of _ rest]) simp
      with True show ?thesis by (simp only: v)
    next
      case some: False
      with IH obtain pre l post where split: "rest = pre @ (?v, l) # post"
        and later: "?st < wait_start_time (info ?v)"
        and before: "\<forall>u\<in>set pre. wait_start_time (info (fst u)) < wait_start_time (info ?v)"
        and after: "\<forall>u\<in>set post. wait_start_time (info (fst u)) \<le> wait_start_time (info ?v)"
        by auto
      have "\<exists>pre l post. w # rest = pre @ (?v, l) # post
          \<and> (\<forall>u\<in>set pre. wait_start_time (info (fst u)) < wait_start_time (info ?v))
          \<and> (\<forall>u\<in>set post. wait_start_time (info (fst u)) \<le> wait_start_time (info ?v))"
        using split later before after
        by (intro exI [of _ "w # pre"] exI [of _ l] exI [of _ post]) simp
      moreover from True later have "lt < wait_start_time (info ?v)" by simp
      ultimately show ?thesis by blast
    qed
    then show ?thesis
      unfolding step if_not_P [OF notall] .
  next
    case False
    then have step: "select_waiter_loop INV info lt lw (w # rest)
        = select_waiter_loop INV info lt lw rest"
      using w by (simp add: Let_def)
    let ?v = "select_waiter_loop INV info lt lw rest"
    note IH = Cons.IH [OF fresh, of lt lw]
    show ?thesis
    proof (cases "\<forall>u\<in>set rest. wait_start_time (info (fst u)) \<le> lt")
      case all: True
      with False have A: "\<forall>u\<in>set (w # rest). wait_start_time (info (fst u)) \<le> lt"
        by simp
      from all IH have B: "?v = lw" by simp
      show ?thesis
        unfolding step if_P [OF A] by (rule B)
    next
      case some: False
      with IH obtain pre l post where split: "rest = pre @ (?v, l) # post"
        and later: "lt < wait_start_time (info ?v)"
        and before: "\<forall>u\<in>set pre. wait_start_time (info (fst u)) < wait_start_time (info ?v)"
        and after: "\<forall>u\<in>set post. wait_start_time (info (fst u)) \<le> wait_start_time (info ?v)"
        by auto
      have "\<exists>pre l post. w # rest = pre @ (?v, l) # post
          \<and> (\<forall>u\<in>set pre. wait_start_time (info (fst u)) < wait_start_time (info ?v))
          \<and> (\<forall>u\<in>set post. wait_start_time (info (fst u)) \<le> wait_start_time (info ?v))"
        using split False later before after
        by (intro exI [of _ "w # pre"] exI [of _ l] exI [of _ post]) simp
      moreover from some have notall: "\<not> (\<forall>u\<in>set (w # rest). wait_start_time (info (fst u)) \<le> lt)"
        by auto
      ultimately show ?thesis
        unfolding step if_not_P [OF notall] using later by blast
    qed
  qed
qed

text \<open>
  C6, as stated: the victim of every discovered cycle is the member whose
  \<open>wait_start_time\<close> is latest, a tie being broken on thread id.  The code keeps the first
  member it visits among those that started latest (\<open>latest_time < wait_start_time\<close> is
  strict): for the same two members with equal start times the victim is \<open>2\<close> in one
  iteration order of the cycle map and \<open>1\<close> in the other.  It returns
  \<open>INVALID_THREADID\<close> (here \<open>8\<close>), no member at all, for a cycle with a member whose
  announcement changed, and for one whose members all started at the clock's epoch, the
  initial value of \<open>latest_time\<close>.
\<close>

theorem select_waiter_tie_follows_iteration_order:
  "select_waiter 8 tied tied_cycle = 2
   \<and> select_waiter 8 tied (rev tied_cycle) = 1
   \<and> select_waiter 8 deadlock_pair stale_cycle = 8
   \<and> select_waiter 8 (waiting_since 0) tied_cycle = 8"
  by (simp add: select_waiter_def tied_def waiting_since_def tied_cycle_def deadlock_pair_def
      stale_cycle_def Let_def)

text \<open>
  C6, amended: for every discovered cycle whose members all still announce the lock
  recorded for them and of which some member's \<open>wait_start_time\<close> is later than the
  clock's epoch (the initial \<open>latest_time\<close>), \<open>select_waiter\<close> returns a member whose
  \<open>wait_start_time\<close> is the latest; among several members that share the latest time
  it returns the one that the iteration over the cycle map visits first.
\<close>

theorem select_waiter_latest_first_in_order:
  assumes fresh: "\<forall>w\<in>set cyc. snd w = waiting_on (global_wait_info s (fst w))"
    and started: "\<exists>w\<in>set cyc. 0 < wait_start_time (global_wait_info s (fst w))"
  shows "\<exists>pre l post. cyc = pre @ (select_waiter INVALID_THREADID s cyc, l) # post
    \<and> (\<forall>w\<in>set pre. wait_start_time (global_wait_info s (fst w))
          < wait_start_time (global_wait_info s (select_waiter INVALID_THREADID s cyc)))
    \<and> (\<forall>w\<in>set post. wait_start_time (global_wait_info s (fst w))
          \<le> wait_start_time (global_wait_info s (select_waiter INVALID_THREADID s cyc)))"
proof -
  from started have notall: "\<not> (\<forall>w\<in>set cyc. wait_start_time (global_wait_info s (fst w)) \<le> 0)"
    by (auto simp: not_le)
  from select_waiter_loop_fresh [OF fresh, of 0 INVALID_THREADID INVALID_THREADID]
  show ?thesis
    unfolding select_waiter_def if_not_P [OF notall] by blast
qed

theorem select_waiter_latest_first_in_order_witness:
  "list_all (\<lambda>w. snd w = waiting_on (global_wait_info tied (fst w))) tied_cycle
   \<and> list_ex (\<lambda>w. 0 < wait_start_time (global_wait_info tied (fst w))) tied_cycle
   \<and> select_waiter 8 tied tied_cycle = 2"
proof -
  define v where "v = select_waiter 8 tied tied_cycle"
  have fresh: "\<forall>w\<in>set tied_cycle. snd w = waiting_on (global_wait_info tied (fst w))"
    by (simp add: tied_def waiting_since_def tied_cycle_def)
  have started: "\<exists>w\<in>set tied_cycle. 0 < wait_start_time (global_wait_info tied (fst w))"
    by (auto simp: tied_def waiting_since_def tied_cycle_def)
  from select_waiter_latest_first_in_order [OF fresh started, of 8]
  obtain pre l post where split: "tied_cycle = pre @ (v, l) # post"
    and before: "\<forall>w\<in>set pre. wait_start_time (global_wait_info tied (fst w))
        < wait_start_time (global_wait_info tied v)"
    unfolding v_def by blast
  have "pre = []"
  proof (cases pre)
    case Nil
    then show ?thesis .
  next
    case (Cons w ws)
    with before have "wait_start_time (global_wait_info tied (fst w))
        < wait_start_time (global_wait_info tied v)"
      by simp
    then show ?thesis by (simp add: tied_def waiting_since_def)
  qed
  with split have "v = 2"
    by (simp add: tied_cycle_def)
  with fresh started show ?thesis
    by (simp add: v_def list_all_iff list_ex_iff)
qed

section \<open>Verification of a discovered cycle\<close>

lemma select_waiter_loop_stale:
  assumes "\<exists>w\<in>set cyc. snd w \<noteq> waiting_on (info (fst w))"
  shows "select_waiter_loop INV info lt lw cyc = INV"
  using assms by (induction cyc arbitrary: lt lw) (auto simp: Let_def)

lemma unpark_verify_filter_no_match:
  assumes "\<forall>wd\<in>set q. tid wd \<noteq> w"
  shows "unpark (verify_filter w tok) q ls = (q, ls)"
  using assms by (induction q) (auto simp: verify_filter_def split: prod.splits)

lemma unpark_verify_filter:
  assumes "unpark (verify_filter w tok) q ((False, False), s) = (q', ((u, f), s'))"
  shows "if u
         then \<not> f \<and> (\<exists>pre wd post. q = pre @ wd # post \<and> q' = pre @ post
                \<and> tid wd = w \<and> wait_token wd = tok
                \<and> s' = s\<lparr>is_dead_locked_local := (is_dead_locked_local s)(is_dead_locked wd := True)\<rparr>)
         else q' = q \<and> s' = s"
  using assms
proof (induction q arbitrary: q')
  case Nil
  then show ?case by simp
next
  case (Cons d ds)
  show ?case
  proof (cases "tid d = w \<and> wait_token d = tok")
    case match: True
    show ?thesis
    proof (cases "is_dead_locked_local s (is_dead_locked d)")
      case True
      with match Cons.prems show ?thesis
        by (simp add: verify_filter_def)
    next
      case False
      with match Cons.prems have r: "q' = ds" "u" "\<not> f"
        "s' = s\<lparr>is_dead_locked_local := (is_dead_locked_local s)(is_dead_locked d := True)\<rparr>"
        by (simp_all add: verify_filter_def)
      have "\<exists>pre wd post. d # ds = pre @ wd # post \<and> q' = pre @ post
          \<and> tid wd = w \<and> wait_token wd = tok
          \<and> s' = s\<lparr>is_dead_locked_local := (is_dead_locked_local s)(is_dead_locked wd := True)\<rparr>"
        using match r by (intro exI [of _ "[]"] exI [of _ d] exI [of _ ds]) simp
      with r show ?thesis by simp
    qed
  next
    case False
    then have flt: "verify_filter w tok d ((False, False), s) = (RetainContinue, (False, False), s)"
      by (auto simp: verify_filter_def)
    obtain ds' where rest: "unpark (verify_filter w tok) ds ((False, False), s) = (ds', ((u, f), s'))"
      and q': "q' = d # ds'"
      using Cons.prems by (auto simp: flt split: prod.splits)
    note IH = Cons.IH [OF rest]
    show ?thesis
    proof (cases u)
      case True
      with IH obtain pre wd post where "ds = pre @ wd # post" "ds' = pre @ post"
        "tid wd = w" "wait_token wd = tok" "\<not> f"
        "s' = s\<lparr>is_dead_locked_local := (is_dead_locked_local s)(is_dead_locked wd := True)\<rparr>"
        by auto
      then have "\<exists>pre wd post. d # ds = pre @ wd # post \<and> q' = pre @ post
          \<and> tid wd = w \<and> wait_token wd = tok
          \<and> s' = s\<lparr>is_dead_locked_local := (is_dead_locked_local s)(is_dead_locked wd := True)\<rparr>"
        using q' by (intro exI [of _ "d # pre"] exI [of _ wd] exI [of _ post]) simp
      with True \<open>\<not> f\<close> show ?thesis by simp
    next
      case False
      with IH q' show ?thesis by simp
    qed
  qed
qed

lemma verify_lock_cycle_result:
  assumes "verify_lock_cycle INVALID_THREADID cyc (dd, s) = Inr (b, dd', s')"
  shows "if b
         then \<exists>key pre wd post. parkinglot s key = pre @ wd # post
                \<and> tid wd = select_waiter INVALID_THREADID s cyc
                \<and> s' = s\<lparr>is_dead_locked_local := (is_dead_locked_local s)(is_dead_locked wd := True),
                         parkinglot := (parkinglot s)(key := pre @ post)\<rparr>
         else s' = s"
proof (cases "cyc = []")
  case True
  with assms show ?thesis by (simp add: verify_lock_cycle_def)
next
  case False
  let ?w = "select_waiter INVALID_THREADID s cyc"
  let ?e1 = "index_default ?w default_WaiterInfo (waiters dd)"
  let ?e2 = "index_default ?w default_WaiterInfo (snd ?e1)"
  let ?key = "wi_lock (fst ?e1)"
  let ?tok = "wi_wait_token (fst ?e2)"
  obtain q' u f s1 where up: "unpark (verify_filter ?w ?tok) (parkinglot s ?key) ((False, False), s)
      = (q', ((u, f), s1))"
    by (metis surj_pair)
  from assms False up have res: "\<not> f" "b = u" "s' = s1\<lparr>parkinglot := (parkinglot s1)(?key := q')\<rparr>"
    by (auto simp: verify_lock_cycle_def unpark_fair_def Let_def case_prod_beta split: if_splits)
  note char = unpark_verify_filter [OF up]
  show ?thesis
  proof (cases u)
    case True
    with char obtain pre wd post where "parkinglot s ?key = pre @ wd # post" "q' = pre @ post"
      "tid wd = ?w"
      "s1 = s\<lparr>is_dead_locked_local := (is_dead_locked_local s)(is_dead_locked wd := True)\<rparr>"
      by auto
    then have "\<exists>key pre wd post. parkinglot s key = pre @ wd # post
        \<and> tid wd = ?w
        \<and> s' = s\<lparr>is_dead_locked_local := (is_dead_locked_local s)(is_dead_locked wd := True),
                 parkinglot := (parkinglot s)(key := pre @ post)\<rparr>"
      using res by (intro exI [of _ ?key] exI [of _ pre] exI [of _ wd] exI [of _ post]) simp
    with True res show ?thesis by simp
  next
    case False
    with char res show ?thesis by simp
  qed
qed

lemma verify_lock_cycle_stale:
  assumes stale: "\<exists>w\<in>set cyc. snd w \<noteq> waiting_on (global_wait_info s (fst w))"
    and real: "\<forall>key. \<forall>wd\<in>set (parkinglot s key). tid wd \<noteq> INVALID_THREADID"
  shows "\<exists>dd'. verify_lock_cycle INVALID_THREADID cyc (dd, s) = Inr (False, dd', s)"
proof -
  from stale have ne: "cyc \<noteq> []" by auto
  from stale have w: "select_waiter INVALID_THREADID s cyc = INVALID_THREADID"
    by (simp add: select_waiter_def select_waiter_loop_stale)
  have "unpark (verify_filter INVALID_THREADID tok) (parkinglot s key) ls = (parkinglot s key, ls)"
    for tok key ls
    using real by (intro unpark_verify_filter_no_match) simp
  with ne w show ?thesis
    by (simp add: verify_lock_cycle_def unpark_fair_def Let_def case_prod_beta)
qed


lemma unpark_gather_filter:
  assumes "unpark (gather_filter MAX_THREADS lck waiter_id tok) q ((dd, f), s) = (q', ((dd', f'), s'))"
  shows "q' = q \<and> s' = s"
  using assms
proof (induction q arbitrary: q' dd f)
  case Nil
  then show ?case by simp
next
  case (Cons d ds)
  show ?case
  proof (cases "fst (gather_filter MAX_THREADS lck waiter_id tok d ((dd, f), s)) = RetainContinue")
    case True
    then have flt: "gather_filter MAX_THREADS lck waiter_id tok d ((dd, f), s)
        = (RetainContinue, (dd, f), s)"
      by (auto simp: gather_filter_def Let_def split: if_splits)
    obtain ds' where "unpark (gather_filter MAX_THREADS lck waiter_id tok) ds ((dd, f), s)
        = (ds', ((dd', f'), s'))" and "q' = d # ds'"
      using Cons.prems by (auto simp: flt split: prod.splits)
    with Cons.IH show ?thesis by blast
  next
    case False
    then obtain dd1 f1 where "gather_filter MAX_THREADS lck waiter_id tok d ((dd, f), s)
        = (RetainBreak, (dd1, f1), s)"
      by (auto simp: gather_filter_def Let_def split: if_splits)
    with Cons.prems show ?thesis by simp
  qed
qed

lemma gather_slots_state:
  assumes "gather_slots MAX_THREADS slots (dd, s) = Inr (dd', s')"
  shows "s' = s"
  using assms
proof (induction slots arbitrary: dd)
  case Nil
  then show ?case by simp
next
  case (Cons waiter_id rest)
  let ?lck = "waiting_on (global_wait_info s waiter_id)"
  let ?tok = "current_wait_token (global_wait_info s waiter_id)"
  show ?case
  proof (cases "?lck = None")
    case True
    with Cons show ?thesis by simp
  next
    case False
    obtain q' dd1 f1 s1 where up: "unpark (gather_filter MAX_THREADS ?lck waiter_id ?tok)
        (parkinglot s ?lck) ((dd, False), s) = (q', ((dd1, f1), s1))"
      by (metis surj_pair)
    from unpark_gather_filter [OF up] have same: "q' = parkinglot s ?lck" "s1 = s"
      by simp_all
    have "unpark_fair ?lck (gather_filter MAX_THREADS ?lck waiter_id ?tok) ((dd, False), s)
        = ((dd1, f1), s)"
      by (simp add: unpark_fair_def up same)
    with Cons.prems False have "gather_slots MAX_THREADS rest (dd1, s) = Inr (dd', s')"
      by (simp add: Let_def split: if_splits)
    then show ?thesis by (rule Cons.IH)
  qed
qed

lemma run_loop_result:
  assumes "run_loop INVALID_THREADID ws (dd, s) = Inr (b, dd', s')"
  shows "if b
         then \<exists>key pre wd post. parkinglot s key = pre @ wd # post
                \<and> s' = s\<lparr>is_dead_locked_local := (is_dead_locked_local s)(is_dead_locked wd := True),
                         parkinglot := (parkinglot s)(key := pre @ post)\<rparr>
         else s' = s"
  using assms
proof (induction ws arbitrary: dd)
  case Nil
  then show ?case by auto
next
  case (Cons w rest)
  obtain cyc dd1 where det: "detect_lock_cycle dd (fst w) (wi_lock (snd w)) = (cyc, dd1)"
    by (metis surj_pair)
  from Cons.prems det obtain u dd2 s2 where
    ver: "verify_lock_cycle INVALID_THREADID cyc (dd1, s) = Inr (u, dd2, s2)"
    by (auto split: sum.splits)
  note char = verify_lock_cycle_result [OF ver]
  show ?case
  proof (cases u)
    case True
    with Cons.prems det ver have "b" "s' = s2" by simp_all
    with char True show ?thesis by auto
  next
    case False
    with char have "s2 = s" by simp
    with Cons.prems det ver False have "run_loop INVALID_THREADID rest (dd2, s) = Inr (b, dd', s')"
      by simp
    then show ?thesis by (rule Cons.IH)
  qed
qed

lemma run_result:
  assumes "run INVALID_THREADID MAX_THREADS s = Inr (b, dd', s')"
  shows "if b
         then \<exists>key pre wd post. parkinglot s key = pre @ wd # post
                \<and> s' = s\<lparr>is_dead_locked_local := (is_dead_locked_local s)(is_dead_locked wd := True),
                         parkinglot := (parkinglot s)(key := pre @ post)\<rparr>
         else s' = s"
proof -
  from assms obtain dd s1 where g: "gather_waiters_and_holders_info MAX_THREADS s = Inr (dd, s1)"
    and r: "run_loop INVALID_THREADID (waiters dd) (dd, s1) = Inr (b, dd', s')"
    by (auto simp: run_def split: sum.splits)
  from g have "s1 = s"
    unfolding gather_waiters_and_holders_info_def by (rule gather_slots_state)
  with r have "run_loop INVALID_THREADID (waiters dd) (dd, s) = Inr (b, dd', s')"
    by simp
  then show ?thesis by (rule run_loop_result)
qed

text \<open>
  C7.  When some member of a discovered cycle no longer announces the lock recorded for
  it (and every parked waiter carries a real thread id, not \<open>INVALID_THREADID\<close>),
  \<open>verify_lock_cycle\<close> returns \<open>false\<close> and leaves the parking lot and every
  \<open>is_dead_locked\<close> as they were.  \<open>verify_lock_cycle\<close>, and \<open>run\<close>, return \<open>true\<close>
  only when one parked waiter was taken out of the lot with its \<open>is_dead_locked\<close>
  set; a \<open>run\<close> that returns \<open>false\<close> changed nothing.
\<close>

theorem verify_lock_cycle_aborts_stale_cycle:
  "((\<exists>w\<in>set cyc. snd w \<noteq> waiting_on (global_wait_info s (fst w)))
      \<and> (\<forall>key. \<forall>wd\<in>set (parkinglot s key). tid wd \<noteq> INVALID_THREADID) \<longrightarrow>
        (\<exists>dd'. verify_lock_cycle INVALID_THREADID cyc (dd, s) = Inr (False, dd', s)))
   \<and> (verify_lock_cycle INVALID_THREADID cyc (dd, s) = Inr (True, dd1, s1) \<longrightarrow>
        (\<exists>key pre wd post. parkinglot s key = pre @ wd # post
           \<and> tid wd = select_waiter INVALID_THREADID s cyc
           \<and> s1 = s\<lparr>is_dead_locked_local := (is_dead_locked_local s)(is_dead_locked wd := True),
                    parkinglot := (parkinglot s)(key := pre @ post)\<rparr>))
   \<and> (run INVALID_THREADID MAX_THREADS s = Inr (True, dd2, s2) \<longrightarrow>
        (\<exists>key pre wd post. parkinglot s key = pre @ wd # post
           \<and> s2 = s\<lparr>is_dead_locked_local := (is_dead_locked_local s)(is_dead_locked wd := True),
                    parkinglot := (parkinglot s)(key := pre @ post)\<rparr>))
   \<and> (run INVALID_THREADID MAX_THREADS s = Inr (False, dd3, s3) \<longrightarrow> s3 = s)"
proof (intro conjI impI)
  assume "(\<exists>w\<in>set cyc. snd w \<noteq> waiting_on (global_wait_info s (fst w)))
      \<and> (\<forall>key. \<forall>wd\<in>set (parkinglot s key). tid wd \<noteq> INVALID_THREADID)"
  then show "\<exists>dd'. verify_lock_cycle INVALID_THREADID cyc (dd, s) = Inr (False, dd', s)"
    by (intro verify_lock_cycle_stale) simp_all
next
  assume "verify_lock_cycle INVALID_THREADID cyc (dd, s) = Inr (True, dd1, s1)"
  from verify_lock_cycle_result [OF this]
  show "\<exists>key pre wd post. parkinglot s key = pre @ wd # post
      \<and> tid wd = select_waiter INVALID_THREADID s cyc
      \<and> s1 = s\<lparr>is_dead_locked_local := (is_dead_locked_local s)(is_dead_locked wd := True),
               parkinglot := (parkinglot s)(key := pre @ post)\<rparr>"
    by simp
next
  assume "run INVALID_THREADID MAX_THREADS s = Inr (True, dd2, s2)"
  from run_result [OF this]
  show "\<exists>key pre wd post. parkinglot s key = pre @ wd # post
      \<and> s2 = s\<lparr>is_dead_locked_local := (is_dead_locked_local s)(is_dead_locked wd := True),
               parkinglot := (parkinglot s)(key := pre @ post)\<rparr>"
    by simp
next
  assume "run INVALID_THREADID MAX_THREADS s = Inr (False, dd3, s3)"
  from run_result [OF this] show "s3 = s" by simp
qed

lemma select_waiter_fresh_cycle: "select_waiter 8 deadlock_pair fresh_cycle = 2"
  by (simp add: select_waiter_def deadlock_pair_def fresh_cycle_def Let_def)

lemma verify_fresh_cycle:
  "verify_lock_cycle 8 fresh_cycle (pair_detector, deadlock_pair) = Inr (True, pair_detector, pair_resolved)"
proof -
  have ne: "fresh_cycle \<noteq> []" by (simp add: fresh_cycle_def)
  have idx: "index_default 2 default_WaiterInfo (waiters pair_detector)
      = (\<lparr>wi_lock = Some 20, wi_wait_token = 1\<rparr>, waiters pair_detector)"
    by (simp add: index_default_def pair_detector_def)
  have up: "unpark_fair (Some 20) (verify_filter 2 1) ((False, False), deadlock_pair)
      = ((True, False), pair_resolved)"
    by (simp add: unpark_fair_def verify_filter_def deadlock_pair_def pair_resolved_def)
  show ?thesis
    by (simp add: verify_lock_cycle_def ne select_waiter_fresh_cycle idx up Let_def)
qed


lemma slots_8: "map of_nat [0..<unat (8 :: thread_id_t)] = [0, 1, 2, 3, 4, 5, 6, 7 :: thread_id_t]"
  by code_simp


lemma gather_deadlock_pair:
  "gather_waiters_and_holders_info 8 deadlock_pair = Inr (pair_detector, deadlock_pair)"
proof -
  have idle: "waiting_on (global_wait_info deadlock_pair w) = None" if "w \<noteq> 1" "w \<noteq> 2" for w
    using that by (simp add: deadlock_pair_def fresh_info_def)
  have w1: "global_wait_info deadlock_pair 1
      = \<lparr>waiting_on = Some 10, wait_start_time = 5, current_wait_token = 1\<rparr>"
    and w2: "global_wait_info deadlock_pair 2
      = \<lparr>waiting_on = Some 20, wait_start_time = 7, current_wait_token = 1\<rparr>"
    by (simp_all add: deadlock_pair_def)
  have up1: "unpark_fair (Some 10) (gather_filter 8 (Some 10) 1 1) ((dd, False), deadlock_pair)
      = ((dd\<lparr>waiters := AList.update 1 \<lparr>wi_lock = Some 10, wi_wait_token = 1\<rparr> (waiters dd),
              holders := AList.update (Some 10) 2 (holders dd)\<rparr>, False), deadlock_pair)" for dd
    by (simp add: unpark_fair_def gather_filter_def deadlock_pair_def LockWord_is_locked_def
        fun_eq_iff)
  have up2: "unpark_fair (Some 20) (gather_filter 8 (Some 20) 2 1) ((dd, False), deadlock_pair)
      = ((dd\<lparr>waiters := AList.update 2 \<lparr>wi_lock = Some 20, wi_wait_token = 1\<rparr> (waiters dd),
              holders := AList.update (Some 20) 1 (holders dd)\<rparr>, False), deadlock_pair)" for dd
    by (simp add: unpark_fair_def gather_filter_def deadlock_pair_def LockWord_is_locked_def
        fun_eq_iff)
  show ?thesis
    unfolding gather_waiters_and_holders_info_def slots_8
    by (simp add: idle w1 w2 up1 up2 pair_detector_def Let_def)
qed

lemma detect_pair_cycle:
  "detect_lock_cycle pair_detector 1 (Some 10) = (fresh_cycle, pair_detector)"
  apply (simp add: detect_lock_cycle_def)
  apply (subst detect_lock_cycle_loop.simps)
  apply (simp add: index_default_def pair_detector_def default_WaiterInfo_def Let_def)
  apply (subst detect_lock_cycle_loop.simps)
  apply (simp add: index_default_def pair_detector_def default_WaiterInfo_def Let_def fresh_cycle_def)
  done

lemma run_deadlock_pair: "run 8 8 deadlock_pair = Inr (True, pair_detector, pair_resolved)"
proof -
  have "run_loop 8 (waiters pair_detector) (pair_detector, deadlock_pair)
      = Inr (True, pair_detector, pair_resolved)"
    by (simp add: pair_detector_def)
       (simp add: pair_detector_def [symmetric] detect_pair_cycle verify_fresh_cycle)
  then show ?thesis
    by (simp add: run_def gather_deadlock_pair)
qed

theorem verify_lock_cycle_aborts_stale_cycle_witness:
  "list_ex (\<lambda>w. snd w \<noteq> waiting_on (global_wait_info deadlock_pair (fst w))) stale_cycle
   \<and> (\<exists>dd'. verify_lock_cycle 8 stale_cycle (pair_detector, deadlock_pair) = Inr (False, dd', deadlock_pair))
   \<and> verify_lock_cycle 8 fresh_cycle (pair_detector, deadlock_pair) = Inr (True, pair_detector, pair_resolved)
   \<and> run 8 8 deadlock_pair = Inr (True, pair_detector, pair_resolved)
   \<and> (\<exists>key pre wd post. parkinglot deadlock_pair key = pre @ wd # post
         \<and> tid wd = select_waiter 8 deadlock_pair fresh_cycle
         \<and> pair_resolved = deadlock_pair
             \<lparr>is_dead_locked_local := (is_dead_locked_local deadlock_pair)(is_dead_locked wd := True),
              parkinglot := (parkinglot deadlock_pair)(key := pre @ post)\<rparr>)"
proof -
  have stale: "\<exists>w\<in>set stale_cycle. snd w \<noteq> waiting_on (global_wait_info deadlock_pair (fst w))"
    by (simp add: stale_cycle_def deadlock_pair_def)
  have real: "\<forall>key. \<forall>wd\<in>set (parkinglot deadlock_pair key). tid wd \<noteq> 8"
    by (simp add: deadlock_pair_def)
  from verify_lock_cycle_aborts_stale_cycle
    [of stale_cycle deadlock_pair 8 pair_detector pair_detector pair_resolved 8 pair_detector
      pair_resolved pair_detector pair_resolved] stale real
  have aborted: "\<exists>dd'. verify_lock_cycle 8 stale_cycle (pair_detector, deadlock_pair)
      = Inr (False, dd', deadlock_pair)"
    by blast
  from verify_lock_cycle_aborts_stale_cycle
    [of fresh_cycle deadlock_pair 8 pair_detector pair_detector pair_resolved 8 pair_detector
      pair_resolved pair_detector pair_resolved] verify_fresh_cycle
  have unparked: "\<exists>key pre wd post. parkinglot deadlock_pair key = pre @ wd # post
      \<and> tid wd = select_waiter 8 deadlock_pair fresh_cycle
      \<and> pair_resolved = deadlock_pair
          \<lparr>is_dead_locked_local := (is_dead_locked_local deadlock_pair)(is_dead_locked wd := True),
           parkinglot := (parkinglot deadlock_pair)(key := pre @ post)\<rparr>"
    by blast
  from stale aborted unparked verify_fresh_cycle run_deadlock_pair show ?thesis
    by (simp add: list_ex_iff)
qed

section \<open>The inline deadlock check of the standard mutex\<close>

lemma verify_pairs_iff: "verify_pairs tbl ws \<longleftrightarrow> (\<forall>w\<in>set ws. snd w = tbl (fst w))"
  by (induction ws) auto

lemma check_deadlock_True:
  assumes "check_deadlock this me env s = Some (True, s')"
  shows "fst (detect_deadlock this me s)"
    and "\<not> dead_lock_verify_mutex (env s)"
    and "fst (verify_deadlock_locked me (snd (detect_deadlock this me s))
            ((env s)\<lparr>dead_lock_verify_mutex := True\<rparr>))"
    and "\<forall>w\<in>set (snd (detect_deadlock this me s)).
            snd w = thread_waiting_on ((env s)\<lparr>dead_lock_verify_mutex := True\<rparr>) (fst w)"
    and "s' = (env s)\<lparr>thread_waiting_on := (thread_waiting_on (env s))(me := None)\<rparr>"
proof -
  from assms show found: "fst (detect_deadlock this me s)"
    by (auto simp: check_deadlock_def case_prod_beta split: if_splits)
  with assms have ver: "verify_deadlock me (snd (detect_deadlock this me s)) (env s) = Some (True, s')"
    by (simp add: check_deadlock_def case_prod_beta)
  then show free: "\<not> dead_lock_verify_mutex (env s)"
    by (auto simp: verify_deadlock_def split: if_splits)
  from ver free show ok: "fst (verify_deadlock_locked me (snd (detect_deadlock this me s))
      ((env s)\<lparr>dead_lock_verify_mutex := True\<rparr>))"
    by (auto simp: verify_deadlock_def case_prod_beta)
  then show "\<forall>w\<in>set (snd (detect_deadlock this me s)).
      snd w = thread_waiting_on ((env s)\<lparr>dead_lock_verify_mutex := True\<rparr>) (fst w)"
    by (simp add: verify_deadlock_locked_def verify_pairs_iff split: if_splits)
  from ver free ok show "s' = (env s)\<lparr>thread_waiting_on := (thread_waiting_on (env s))(me := None)\<rparr>"
    by (auto simp: verify_deadlock_def verify_deadlock_locked_def denounce_wait_std_def
        case_prod_beta split: if_splits)
qed

lemma uncontended_path_available_eq:
  "uncontended_path_available this me s =
     (if \<not> is_locked (words_std s this) then (True, s)
      else if is_lock_contented (words_std s this) then (False, s)
      else (False, s\<lparr>words_std := (words_std s)(this := get_contented_word me)\<rparr>))"
  by (subst uncontended_path_available.simps) (simp add: compare_exchange_strong_def)

lemma lock_std_deadlocked:
  assumes held: "words_std s0 this \<noteq> get_unlocked_word"
    and sleep: "park_for_std this (mutex_is_lock_contented this) (fst a) (announce_wait_std this me s0)
        = (Timeout, s)"
    and check: "check_deadlock this me (snd a) s = Some (True, s')"
  shows "park_std this me a s0 = Some (True, s')"
    and "lock_contended this me (a # as) s0 = Some (DEADLOCKED, s')"
    and "lock_std this me (a # as) s0 = Some (Inr (DEADLOCKED, s'))"
proof -
  show park: "park_std this me a s0 = Some (True, s')"
    by (simp add: park_std_def sleep check)
  from held have tlc: "try_lock_contended this me s0 = (False, s0)"
    by (simp add: try_lock_contended_def compare_exchange_strong_def)
  show lc: "lock_contended this me (a # as) s0 = Some (DEADLOCKED, s')"
    by (simp add: tlc park)
  from held have tl: "try_lock_std this me s0 = (False, s0)"
    by (simp add: try_lock_std_def compare_exchange_strong_def)
  from sleep have "mutex_is_lock_contented this (announce_wait_std this me s0)"
    by (auto simp: park_for_std_def split: if_splits)
  then have "is_lock_contented (words_std s0 this)"
    by (simp add: mutex_is_lock_contented_def announce_wait_std_def)
  with held have upa: "uncontended_path_available this me s0 = (False, s0)"
    by (simp add: uncontended_path_available_eq is_locked_def)
  show "lock_std this me (a # as) s0 = Some (Inr (DEADLOCKED, s'))"
    by (subst lock_std.simps) (simp add: tl upa lc del: lock_contended.simps)
qed

text \<open>
  C8.  \<open>check_deadlock\<close> returns \<open>true\<close> only if its search found a cycle and its
  verification acquired \<open>dead_lock_verify_mutex\<close> and, holding it, found every pair
  recorded by the search equal to the current entry of \<open>thread_waiting_on\<close>; the state
  it returns is the one it verified with the caller's own slot cleared.  When that
  happens in a \<open>lock\<close> call on a held mutex whose sleep in \<open>park_for\<close> ended by the
  timeout, \<open>park\<close> returns \<open>true\<close> and \<open>lock_contended\<close> and \<open>lock\<close> return
  \<open>DEADLOCKED\<close> at once, every lock word being what it was when the verification ran.
\<close>

theorem check_deadlock_confirms_current_cycle:
  "(check_deadlock this me (snd a) s = Some (True, s') \<longrightarrow>
      fst (detect_deadlock this me s)
      \<and> \<not> dead_lock_verify_mutex (snd a s)
      \<and> (\<forall>w\<in>set (snd (detect_deadlock this me s)).
            snd w = thread_waiting_on ((snd a s)\<lparr>dead_lock_verify_mutex := True\<rparr>) (fst w))
      \<and> s' = (snd a s)\<lparr>thread_waiting_on := (thread_waiting_on (snd a s))(me := None)\<rparr>
      \<and> thread_waiting_on s' me = None)
   \<and> (words_std s0 this \<noteq> get_unlocked_word
      \<and> park_for_std this (mutex_is_lock_contented this) (fst a) (announce_wait_std this me s0)
          = (Timeout, s)
      \<and> check_deadlock this me (snd a) s = Some (True, s') \<longrightarrow>
        park_std this me a s0 = Some (True, s')
        \<and> lock_contended this me (a # as) s0 = Some (DEADLOCKED, s')
        \<and> lock_std this me (a # as) s0 = Some (Inr (DEADLOCKED, s'))
        \<and> words_std s' = words_std (snd a s))"
proof (intro conjI impI)
  assume check: "check_deadlock this me (snd a) s = Some (True, s')"
  note cd = check_deadlock_True [OF check]
  from cd show "fst (detect_deadlock this me s)"
    and "\<not> dead_lock_verify_mutex (snd a s)"
    and "\<forall>w\<in>set (snd (detect_deadlock this me s)).
          snd w = thread_waiting_on ((snd a s)\<lparr>dead_lock_verify_mutex := True\<rparr>) (fst w)"
    and "s' = (snd a s)\<lparr>thread_waiting_on := (thread_waiting_on (snd a s))(me := None)\<rparr>"
    by blast+
  from cd(5) show "thread_waiting_on s' me = None"
    by simp
next
  assume all: "words_std s0 this \<noteq> get_unlocked_word
      \<and> park_for_std this (mutex_is_lock_contented this) (fst a) (announce_wait_std this me s0)
          = (Timeout, s)
      \<and> check_deadlock this me (snd a) s = Some (True, s')"
  then have held: "words_std s0 this \<noteq> get_unlocked_word"
    and sleep: "park_for_std this (mutex_is_lock_contented this) (fst a) (announce_wait_std this me s0)
        = (Timeout, s)"
    and check: "check_deadlock this me (snd a) s = Some (True, s')"
    by blast+
  from lock_std_deadlocked [OF held sleep check]
  show "park_std this me a s0 = Some (True, s')"
    and "lock_contended this me (a # as) s0 = Some (DEADLOCKED, s')"
    and "lock_std this me (a # as) s0 = Some (Inr (DEADLOCKED, s'))"
    by blast+
  from check_deadlock_True(5) [OF check] show "words_std s' = words_std (snd a s)"
    by simp
qed

lemma std_deadlock_words:
  "words_std std_timed_out (Some 10) = 2" "words_std std_timed_out (Some 20) = 1"
  "thread_waiting_on std_timed_out 1 = Some 10" "thread_waiting_on std_timed_out 2 = Some 20"
  by (simp_all add: std_timed_out_def std_deadlock_def get_lock_word_def)

lemma detect_std_deadlock:
  "detect_deadlock (Some 10) 1 std_timed_out = (True, [(1, Some 10), (2, Some 20)])"
proof -
  have two: "as_uncontented_word 2 = 2" and one: "as_uncontented_word 1 = 1"
    by (simp_all add: as_uncontented_word_def M_CONTENDED_MASK_value)
  have locked: "is_locked 2" "is_locked 1"
    by (simp_all add: is_locked_def get_unlocked_word_def M_UNLOCKED_value)
  show ?thesis
    apply (simp add: detect_deadlock_def)
    apply (subst detect_deadlock_loop.simps)
    apply (simp add: std_deadlock_words two one locked)
    apply (subst detect_deadlock_loop.simps)
    apply (simp add: std_deadlock_words two one locked)
    done
qed

lemma check_std_deadlock: "check_deadlock (Some 10) 1 id std_timed_out = Some (True, std_denounced)"
  by (simp add: check_deadlock_def detect_std_deadlock verify_deadlock_def verify_deadlock_locked_def
      std_deadlock_words denounce_wait_std_def std_denounced_def)
     (simp add: std_timed_out_def std_deadlock_def)

lemma sleep_std_deadlock:
  "park_for_std (Some 10) (mutex_is_lock_contented (Some 10)) (True, timed_out_10)
      (announce_wait_std (Some 10) 1 std_deadlock) = (Timeout, std_timed_out)"
  by (simp add: park_for_std_def mutex_is_lock_contented_def announce_wait_std_def timed_out_10_def
      is_lock_contented_def M_CONTENDED_MASK_value std_timed_out_def)
     (simp add: std_deadlock_def get_lock_word_def fun_upd_idem_iff)

theorem check_deadlock_confirms_current_cycle_witness:
  "words_std std_deadlock (Some 10) \<noteq> get_unlocked_word
   \<and> park_for_std (Some 10) (mutex_is_lock_contented (Some 10)) (True, timed_out_10)
        (announce_wait_std (Some 10) 1 std_deadlock) = (Timeout, std_timed_out)
   \<and> check_deadlock (Some 10) 1 id std_timed_out = Some (True, std_denounced)
   \<and> detect_deadlock (Some 10) 1 std_timed_out = (True, [(1, Some 10), (2, Some 20)])
   \<and> thread_waiting_on std_timed_out 1 = Some 10
   \<and> thread_waiting_on std_timed_out 2 = Some 20
   \<and> thread_waiting_on std_denounced 1 = None
   \<and> words_std std_denounced = words_std std_timed_out
   \<and> lock_std (Some 10) 1 [((True, timed_out_10), id)] std_deadlock = Some (Inr (DEADLOCKED, std_denounced))"
proof -
  have held: "words_std std_deadlock (Some 10) \<noteq> get_unlocked_word"
    by (simp add: std_deadlock_def get_lock_word_def get_unlocked_word_def M_UNLOCKED_value)
  have sleep: "park_for_std (Some 10) (mutex_is_lock_contented (Some 10))
      (fst ((True, timed_out_10), id)) (announce_wait_std (Some 10) 1 std_deadlock)
      = (Timeout, std_timed_out)"
    by (simp add: sleep_std_deadlock)
  have check: "check_deadlock (Some 10) 1 (snd ((True, timed_out_10), id)) std_timed_out
      = Some (True, std_denounced)"
    by (simp add: check_std_deadlock)
  from check_deadlock_confirms_current_cycle
    [of "Some 10" 1 "((True, timed_out_10), id)" std_timed_out std_denounced std_deadlock "[]"]
    held sleep check
  have "thread_waiting_on std_denounced 1 = None
      \<and> words_std std_denounced = words_std std_timed_out
      \<and> lock_std (Some 10) 1 [((True, timed_out_10), id)] std_deadlock
          = Some (Inr (DEADLOCKED, std_denounced))"
    by (simp del: lock_contended.simps)
  with held show ?thesis
    by (simp add: sleep_std_deadlock check_std_deadlock detect_std_deadlock std_deadlock_words)
qed

end
